theory Spec2Isabelle
  imports
    Complex_Main
    "HOL-Library.Multiset"
    "HOL-Library.Char_ord"
    "HOL-Library.List_Lexorder"
    "HOL-Library.Sublist"
begin

section \<open>Severity classification\<close>

text \<open>
  The repository classifies severity in two places.
  \<^item> \<^verbatim>\<open>AutoLiveSystem.calculate_severity(damage_type, confidence)\<close>
    (\<^verbatim>\<open>edge/auto_live_system.py\<close>) reads per-type thresholds from the
    configuration table \<^verbatim>\<open>severity_rules\<close> and falls back to 0.85 / 0.70.
  \<^item> \<^verbatim>\<open>DamageGrouper._calculate_severity(group)\<close>
    (\<^verbatim>\<open>edge/group_damages.py\<close>) has hard-coded branches for
    \<^verbatim>\<open>pothole\<close> and \<^verbatim>\<open>crack\<close> and one \<^verbatim>\<open>else\<close> branch.
  Python floats are modelled as reals.
\<close>

datatype severity = Low | Medium | High

fun severity_rank :: "severity \<Rightarrow> nat" where
  "severity_rank Low = 0"
| "severity_rank Medium = 1"
| "severity_rank High = 2"

text \<open>One entry of \<^verbatim>\<open>severity_rules\<close>: a dictionary whose keys
  \<^verbatim>\<open>'high'\<close> and \<^verbatim>\<open>'medium'\<close> may each be absent.\<close>

record thresholds =
  th_high :: "real option"
  th_medium :: "real option"

text \<open>\<^verbatim>\<open>d.get(key, default)\<close> on an optional entry.\<close>

fun get_or :: "'a option \<Rightarrow> 'a \<Rightarrow> 'a" where
  "get_or None dflt = dflt"
| "get_or (Some v) dflt = v"

definition calculate_severity :: "(string \<rightharpoonup> thresholds) \<Rightarrow> string \<Rightarrow> real \<Rightarrow> severity" where
  "calculate_severity rules damage_type confidence =
     (let thresholds =
        (case rules damage_type of
           Some t \<Rightarrow> t
         | None \<Rightarrow> \<lparr>th_high = Some 0.85, th_medium = Some 0.70\<rparr>)
      in if confidence \<ge> get_or (th_high thresholds) 0.85 then High
         else if confidence \<ge> get_or (th_medium thresholds) 0.70 then Medium
         else Low)"

text \<open>\<^verbatim>\<open>str.lower()\<close> on ASCII text (a \<^typ>\<open>char\<close> is a byte).\<close>

definition lower_char :: "char \<Rightarrow> char" where
  "lower_char c =
     (let n = (of_char c :: nat) in if 65 \<le> n \<and> n \<le> 90 then char_of (n + 32) else c)"

definition lower :: "string \<Rightarrow> string" where
  "lower s = map lower_char s"

text \<open>The part of a finished group that \<^verbatim>\<open>_calculate_severity\<close> reads:
  \<^verbatim>\<open>group['damage_type']\<close>, \<^verbatim>\<open>group['best_confidence']\<close> and
  \<^verbatim>\<open>group['image_count']\<close>.\<close>

definition grouper_calculate_severity :: "string \<Rightarrow> real \<Rightarrow> nat \<Rightarrow> severity" where
  "grouper_calculate_severity group_damage_type best_confidence image_count =
     (let damage_type = lower group_damage_type;
          confidence = best_confidence;
          image_factor = min (real image_count / 3) 1.0
      in if damage_type = ''pothole'' then
           (if confidence > 0.8 \<or> image_factor > 0.7 then High
            else if confidence > 0.6 then Medium
            else Low)
         else if damage_type = ''crack'' then
           (if confidence > 0.75 \<and> image_factor > 0.5 then Medium
            else Low)
         else Low)"


section \<open>Route segmentation\<close>

text \<open>
  \<^verbatim>\<open>segment_by_surface(coordinates, surfaces)\<close> in
  \<^verbatim>\<open>edge/update_github_pages.py\<close>. A coordinate is the pair
  \<^verbatim>\<open>[lon, lat]\<close> written by \<^verbatim>\<open>save_session_data\<close>; a surface entry is
  one saved \<^verbatim>\<open>SurfaceDetection\<close>, of which the function reads the position,
  the label and the confidence.

  \<^verbatim>\<open>geodesic\<close> comes from the external package geopy and is \<^verbatim>\<open>None\<close>
  when the import failed. It is a parameter here: \<open>None\<close>, or the function
  giving the distance in metres between two \<open>(lat, lon)\<close> pairs.
\<close>

type_synonym coord = "real \<times> real"

type_synonym geodesic = "(real \<times> real \<Rightarrow> real \<times> real \<Rightarrow> real) option"

record surface_detection =
  sd_latitude :: real
  sd_longitude :: real
  sd_surface_type :: string
  sd_confidence :: real

record segment =
  seg_coordinates :: "coord list"
  seg_surface_type :: string
  seg_confidence :: real

text \<open>The test \<^verbatim>\<open>geodesic and geodesic((lat, lon), (next.latitude, next.longitude)).meters < 5\<close>.\<close>

definition passed_to :: "geodesic \<Rightarrow> coord \<Rightarrow> surface_detection \<Rightarrow> bool" where
  "passed_to geod coord next_surface =
     (case coord of (lon, lat) \<Rightarrow>
        (case geod of
           None \<Rightarrow> False
         | Some g \<Rightarrow> g (lat, lon) (sd_latitude next_surface, sd_longitude next_surface) < 5))"

text \<open>\<^verbatim>\<open>if current_segment['coordinates']: segments.append(current_segment)\<close>.\<close>

definition close_segment :: "segment list \<Rightarrow> segment \<Rightarrow> segment list" where
  "close_segment segments current_segment =
     (if seg_coordinates current_segment \<noteq> [] then segments @ [current_segment] else segments)"

text \<open>The \<^verbatim>\<open>for coord in coordinates\<close> loop, with the variables it updates
  (\<^verbatim>\<open>segments\<close>, \<^verbatim>\<open>current_segment\<close>, \<^verbatim>\<open>surface_idx\<close>) as arguments; the
  last equation is the code after the loop.\<close>

fun segment_loop ::
  "geodesic \<Rightarrow> surface_detection list \<Rightarrow> coord list \<Rightarrow> segment list \<Rightarrow> segment \<Rightarrow> nat
     \<Rightarrow> segment list" where
  "segment_loop geod surfaces [] segments current_segment surface_idx =
     close_segment segments current_segment"
| "segment_loop geod surfaces (coord # rest) segments current_segment surface_idx =
     (if surface_idx < length surfaces - 1
         \<and> passed_to geod coord (surfaces ! (surface_idx + 1))
      then
        (let next_surface = surfaces ! (surface_idx + 1) in
         segment_loop geod surfaces rest
           (close_segment segments current_segment)
           \<lparr>seg_coordinates = [coord],
            seg_surface_type = sd_surface_type next_surface,
            seg_confidence = sd_confidence next_surface\<rparr>
           (surface_idx + 1))
      else
        segment_loop geod surfaces rest segments
          (current_segment\<lparr>seg_coordinates := seg_coordinates current_segment @ [coord]\<rparr>)
          surface_idx)"

definition segment_by_surface ::
  "geodesic \<Rightarrow> coord list \<Rightarrow> surface_detection list \<Rightarrow> segment list" where
  "segment_by_surface geod coords surfaces =
     (case surfaces of
        [] \<Rightarrow> [\<lparr>seg_coordinates = coords, seg_surface_type = ''unknown'', seg_confidence = 0.0\<rparr>]
      | s0 # _ \<Rightarrow>
          segment_loop geod surfaces coords []
            \<lparr>seg_coordinates = [], seg_surface_type = sd_surface_type s0, seg_confidence = sd_confidence s0\<rparr>
            0)"

text \<open>A distance function for the concrete routes of the examples below: their points
  are either identical (distance 0) or at least one degree of latitude apart (more than
  100 km), and on such points it is on the same side of the 5 m threshold as geopy's
  result.\<close>

definition example_geodesic :: "real \<times> real \<Rightarrow> real \<times> real \<Rightarrow> real" where
  "example_geodesic p q = (if p = q then 0 else 111000)"

text \<open>What the specification describes instead: consecutive segments that share their
  boundary point.\<close>

fun shares_boundary :: "segment list \<Rightarrow> bool" where
  "shares_boundary (s1 # s2 # rest) =
     (seg_coordinates s1 \<noteq> [] \<and> seg_coordinates s2 \<noteq> []
      \<and> last (seg_coordinates s1) = hd (seg_coordinates s2) \<and> shares_boundary (s2 # rest))"
| "shares_boundary _ = True"

fun adjacent_labels_differ :: "segment list \<Rightarrow> bool" where
  "adjacent_labels_differ (s1 # s2 # rest) =
     (seg_surface_type s1 \<noteq> seg_surface_type s2 \<and> adjacent_labels_differ (s2 # rest))"
| "adjacent_labels_differ _ = True"

text \<open>The reconstruction the specification describes: the segments joined with the
  first point of every later segment left out as the shared boundary.\<close>

definition join_shared_boundary :: "coord list list \<Rightarrow> coord list" where
  "join_shared_boundary css = (case css of [] \<Rightarrow> [] | cs # rest \<Rightarrow> cs @ concat (map tl rest))"

text \<open>A route of two points one degree of latitude apart, and a surface sample at each
  of them.\<close>

definition example_route :: "coord list" where
  "example_route = [(11, 48), (11, 49)]"

definition example_surfaces :: "string \<Rightarrow> string \<Rightarrow> surface_detection list" where
  "example_surfaces l0 l1 =
     [\<lparr>sd_latitude = 48, sd_longitude = 11, sd_surface_type = l0, sd_confidence = 0.9\<rparr>,
      \<lparr>sd_latitude = 49, sd_longitude = 11, sd_surface_type = l1, sd_confidence = 0.8\<rparr>]"

text \<open>The label and confidence a segment carries, and those of a surface sample.\<close>

definition seg_label :: "segment \<Rightarrow> string \<times> real" where
  "seg_label s = (seg_surface_type s, seg_confidence s)"

definition sd_label :: "surface_detection \<Rightarrow> string \<times> real" where
  "sd_label s = (sd_surface_type s, sd_confidence s)"

section \<open>Surface smoothing\<close>

text \<open>
  Lines 384 to 392 of \<^verbatim>\<open>AutoLiveSystem.process_surface\<close>: the raw sample is
  appended to \<^verbatim>\<open>surface_buffer\<close>, a \<^verbatim>\<open>deque(maxlen=smoothing_window)\<close>, and,
  when smoothing is on and the buffer holds at least two samples, the label becomes
  \<^verbatim>\<open>max(set(types), key=types.count)\<close> and the confidence the mean over the
  samples with that label.
\<close>

datatype py_error = KeyError | ValueError | ZeroDivisionError | StatisticsError

text \<open>\<^verbatim>\<open>deque.append\<close> on a deque with \<^verbatim>\<open>maxlen\<close>: the oldest entries fall out.\<close>

definition deque_append :: "nat \<Rightarrow> 'a list \<Rightarrow> 'a \<Rightarrow> 'a list" where
  "deque_append maxlen buf x = (let b = buf @ [x] in drop (length b - maxlen) b)"

text \<open>\<^verbatim>\<open>max(iterable, key=...)\<close> keeps the first element met whose key is
  maximal: a later element replaces the current best only when its key is strictly
  greater. On an empty iterable it raises \<^verbatim>\<open>ValueError\<close>.\<close>

fun max_from :: "('a \<Rightarrow> nat) \<Rightarrow> 'a \<Rightarrow> 'a list \<Rightarrow> 'a" where
  "max_from key best [] = best"
| "max_from key best (x # xs) = max_from key (if key x > key best then x else best) xs"

definition py_max :: "('a \<Rightarrow> nat) \<Rightarrow> 'a list \<Rightarrow> py_error + 'a" where
  "py_max key xs = (case xs of [] \<Rightarrow> Inl ValueError | x # rest \<Rightarrow> Inr (max_from key x rest))"

text \<open>\<^verbatim>\<open>statistics.mean\<close>.\<close>

definition mean :: "real list \<Rightarrow> py_error + real" where
  "mean xs = (if xs = [] then Inl StatisticsError else Inr (sum_list xs / real (length xs)))"

text \<open>
  The order in which Python iterates over \<^verbatim>\<open>set(types)\<close> is not fixed by the
  program: it follows the hash values of the labels, which CPython randomises per
  process for strings. It is the parameter \<open>set_iter\<close>, from the list the set is built
  from to the sequence in which the set's elements are visited.
\<close>

definition majority_vote ::
  "(string list \<Rightarrow> string list) \<Rightarrow> (string \<times> real) list \<Rightarrow> py_error + (string \<times> real)" where
  "majority_vote set_iter surface_buffer =
     (let types = map fst surface_buffer in
      case py_max (count_list types) (set_iter types) of
        Inl e \<Rightarrow> Inl e
      | Inr surface_type \<Rightarrow>
          (case mean (map snd (filter (\<lambda>s. fst s = surface_type) surface_buffer)) of
             Inl e \<Rightarrow> Inl e
           | Inr confidence \<Rightarrow> Inr (surface_type, confidence)))"

text \<open>The result is the new buffer and the smoothed sample.\<close>

definition smooth_surface ::
  "(string list \<Rightarrow> string list) \<Rightarrow> bool option \<Rightarrow> nat \<Rightarrow> (string \<times> real) list \<Rightarrow> string \<times> real
     \<Rightarrow> py_error + ((string \<times> real) list \<times> (string \<times> real))" where
  "smooth_surface set_iter smoothing smoothing_window surface_buffer sample =
     (let buf = deque_append smoothing_window surface_buffer sample in
      if get_or smoothing True \<and> length buf \<ge> 2 then
        (case majority_vote set_iter buf of
           Inl e \<Rightarrow> Inl e
         | Inr voted \<Rightarrow> Inr (buf, voted))
      else Inr (buf, sample))"

text \<open>The vote as the specification words it: the label with the highest count, the
  earliest-appearing one among the tied maxima.\<close>

definition spec_vote :: "string list \<Rightarrow> string option" where
  "spec_vote types =
     List.find (\<lambda>t. \<forall>u \<in> set types. count_list types u \<le> count_list types t) types"

text \<open>One possible iteration order of the set built from a list: the distinct
  elements, last seen first.\<close>

definition reversed_order :: "'a list \<Rightarrow> 'a list" where
  "reversed_order xs = remdups (rev xs)"


text \<open>A window of two samples with different labels: each label occurs once.\<close>

definition example_window :: "(string \<times> real) list" where
  "example_window = [(''asphalt_good'', 0.9), (''cobblestone'', 0.8)]"

section \<open>Upload and local backup\<close>

text \<open>
  \<^verbatim>\<open>BikeEdgeSystem\<close> in \<^verbatim>\<open>edge/main.py\<close>. The state is the part of the
  object and of the disk that \<^verbatim>\<open>upload_to_cloud\<close>, \<^verbatim>\<open>save_local_backup\<close>
  and \<^verbatim>\<open>cleanup_old_backups\<close> read and write: the list
  \<^verbatim>\<open>session_data\<close>, \<^verbatim>\<open>ride_id\<close>, the files of the backup directory and
  the configured \<^verbatim>\<open>max_backup_files\<close>. The type \<open>'d\<close> is the detector's
  output for one frame.
\<close>

record 'd detection_record =
  rec_timestamp :: real
  rec_latitude :: real
  rec_longitude :: real
  rec_altitude :: "real option"
  rec_speed :: "real option"
  rec_detections :: "'d list"

record 'd feature =
  geometry_type :: string
  geometry_coordinates :: "real list"
  prop_timestamp :: real
  prop_detections :: "'d list"
  prop_altitude :: real
  prop_speed :: real

record 'd geojson =
  features :: "'d feature list"
  generated :: string
  total_features :: nat

definition convert_to_geojson :: "string \<Rightarrow> 'd detection_record list \<Rightarrow> 'd geojson" where
  "convert_to_geojson now_iso data =
     (let features =
        map (\<lambda>record.
               \<lparr>geometry_type = ''Point'',
                geometry_coordinates = [rec_longitude record, rec_latitude record],
                prop_timestamp = rec_timestamp record,
                prop_detections = rec_detections record,
                prop_altitude = get_or (rec_altitude record) 0.0,
                prop_speed = get_or (rec_speed record) 0.0\<rparr>) data
      in \<lparr>features = features, generated = now_iso, total_features = length features\<rparr>)"

text \<open>A file of the backup directory: its name, its modification time and its
  content. The directory is the list of its files in the order in which the directory
  is listed; names are distinct in a directory.\<close>

record 'd backup_file =
  bf_name :: string
  bf_mtime :: real
  bf_content :: "'d geojson"

text \<open>\<^verbatim>\<open>open(backup_file, 'w')\<close> and \<^verbatim>\<open>json.dump\<close>: a file of that name is
  replaced, otherwise the file is new.\<close>

definition write_file :: "string \<Rightarrow> real \<Rightarrow> 'd geojson \<Rightarrow> 'd backup_file list \<Rightarrow> 'd backup_file list" where
  "write_file name mtime content dir =
     (let file = \<lparr>bf_name = name, bf_mtime = mtime, bf_content = content\<rparr> in
      if name \<in> bf_name ` set dir
      then map (\<lambda>f. if bf_name f = name then file else f) dir
      else dir @ [file])"

text \<open>The names that \<^verbatim>\<open>backup_dir.glob("backup_*.geojson")\<close> selects.\<close>

definition is_backup_name :: "string \<Rightarrow> bool" where
  "is_backup_name name = (prefix ''backup_'' name \<and> suffix ''.geojson'' name)"

text \<open>\<^verbatim>\<open>old_file.unlink()\<close>.\<close>

definition unlink :: "string \<Rightarrow> 'd backup_file list \<Rightarrow> 'd backup_file list" where
  "unlink name dir = filter (\<lambda>f. bf_name f \<noteq> name) dir"

text \<open>The Python slice \<^verbatim>\<open>xs[:-m]\<close> for an integer \<open>m\<close>: the stop index
  \<open>-m\<close> counts from the end when it is negative, and \<^verbatim>\<open>-0\<close> is \<open>0\<close>.\<close>

definition slice_to_minus :: "'a list \<Rightarrow> int \<Rightarrow> 'a list" where
  "slice_to_minus xs m =
     (let stop = - m in
      if stop < 0 then take (nat (int (length xs) + stop)) xs else take (nat stop) xs)"

definition cleanup_old_backups :: "int \<Rightarrow> 'd backup_file list \<Rightarrow> 'd backup_file list" where
  "cleanup_old_backups max_files dir =
     (let backup_files = sort_key bf_mtime (filter (\<lambda>f. is_backup_name (bf_name f)) dir) in
      if int (length backup_files) > max_files
      then foldl (\<lambda>d old_file. unlink (bf_name old_file) d) dir
             (slice_to_minus backup_files max_files)
      else dir)"

record 'd edge_state =
  session_data :: "'d detection_record list"
  ride_id :: "string option"
  backup_dir :: "'d backup_file list"
  max_backup_files :: int

text \<open>What one call reads from the clock: \<^verbatim>\<open>datetime.now()\<close> formatted with
  \<^verbatim>\<open>%Y%m%d_%H%M%S\<close> for the file name, \<^verbatim>\<open>datetime.now().isoformat()\<close>
  for the metadata, and the modification time the file gets.\<close>

record clock =
  now_stamp :: string
  now_iso :: string
  now_mtime :: real

definition save_local_backup ::
  "clock \<Rightarrow> 'd detection_record list option \<Rightarrow> 'd edge_state \<Rightarrow> 'd edge_state" where
  "save_local_backup clk data_arg st =
     (let data = (case data_arg of None \<Rightarrow> session_data st | Some d \<Rightarrow> d) in
      if data = [] then st
      else
        (let backup_file = ''backup_'' @ now_stamp clk @ ''.geojson'';
             geojson_data = convert_to_geojson (now_iso clk) data;
             written = write_file backup_file (now_mtime clk) geojson_data (backup_dir st)
         in st\<lparr>backup_dir := cleanup_old_backups (max_backup_files st) written\<rparr>))"

text \<open>What \<^verbatim>\<open>requests.post\<close>, \<^verbatim>\<open>raise_for_status\<close> and
  \<^verbatim>\<open>response.json()\<close> can do: deliver (the body's \<^verbatim>\<open>ride_id\<close>, if any), or
  raise one of the three exception classes the function catches.\<close>

datatype post_outcome =
  Delivered "string option"
| Connection_Error
| Timeout_Error
| Other_Exception

definition upload_to_cloud :: "clock \<Rightarrow> post_outcome \<Rightarrow> 'd edge_state \<Rightarrow> 'd edge_state" where
  "upload_to_cloud clk outcome st =
     (if session_data st = [] then st
      else
        (let data_to_upload = session_data st in
         case outcome of
           Delivered rid \<Rightarrow>
             st\<lparr>ride_id := rid,
                session_data := filter (\<lambda>d. d \<notin> set data_to_upload) (session_data st)\<rparr>
         | Connection_Error \<Rightarrow> save_local_backup clk (Some data_to_upload) st
         | Timeout_Error \<Rightarrow> save_local_backup clk (Some data_to_upload) st
         | Other_Exception \<Rightarrow> save_local_backup clk (Some data_to_upload) st))"

text \<open>The request body of a delivery attempt made in a state:
  \<^verbatim>\<open>json={"detections": self.session_data.copy()}\<close>.\<close>

definition request_body :: "'d edge_state \<Rightarrow> 'd detection_record list" where
  "request_body st = session_data st"


text \<open>A state with one buffered record and an empty backup directory, the clock of
  one call, and the backup file that call writes.\<close>

definition example_record :: "(string \<times> real) detection_record" where
  "example_record =
     \<lparr>rec_timestamp = 1700000000, rec_latitude = 48.1, rec_longitude = 11.5,
      rec_altitude = Some 520, rec_speed = None, rec_detections = [(''pothole'', 0.9)]\<rparr>"

definition example_clock :: clock where
  "example_clock =
     \<lparr>now_stamp = ''20250101_120000'', now_iso = ''2025-01-01T12:00:00'', now_mtime = 1735732800\<rparr>"

definition example_state :: "int \<Rightarrow> (string \<times> real) edge_state" where
  "example_state max_files =
     \<lparr>session_data = [example_record], ride_id = None, backup_dir = [],
      max_backup_files = max_files\<rparr>"

definition example_backup :: "(string \<times> real) backup_file" where
  "example_backup =
     \<lparr>bf_name = ''backup_20250101_120000.geojson'', bf_mtime = 1735732800,
      bf_content = convert_to_geojson ''2025-01-01T12:00:00'' [example_record]\<rparr>"

section \<open>Damage grouping\<close>

text \<open>
  \<^verbatim>\<open>edge/group_damages.py\<close>. A detection is a dictionary; the model keeps the
  keys the grouping reads, each optional as in the source's \<^verbatim>\<open>.get\<close> calls:
  \<^verbatim>\<open>timestamp\<close>, \<^verbatim>\<open>gps\<close> with \<^verbatim>\<open>latitude\<close> and \<^verbatim>\<open>longitude\<close>,
  \<^verbatim>\<open>detection\<close> with \<^verbatim>\<open>class\<close> and \<^verbatim>\<open>confidence\<close>, and the
  image name. Timestamps are ISO strings and compare as Python strings do
  (lexicographically by character code). The entry \<^verbatim>\<open>gps\<close> is either missing
  (\<open>None\<close>) or a dictionary; an entry that is present with the value
  \<^verbatim>\<open>None\<close> is not a value of this type (on it the source raises
  \<^verbatim>\<open>AttributeError\<close> at \<^verbatim>\<open>gps.get\<close>, before any test of the coordinates).
\<close>

record gps =
  latitude :: "real option"
  longitude :: "real option"

record detection =
  timestamp :: "string option"
  gps :: "gps option"
  det_class :: "string option"
  det_confidence :: "real option"
  image_name :: "string option"

definition radians :: "real \<Rightarrow> real" where
  "radians x = x * pi / 180"

text \<open>\<^verbatim>\<open>math.atan2(y, x)\<close>.\<close>

definition atan2 :: "real \<Rightarrow> real \<Rightarrow> real" where
  "atan2 y x =
     (if x > 0 then arctan (y / x)
      else if x < 0 \<and> y \<ge> 0 then arctan (y / x) + pi
      else if x < 0 \<and> y < 0 then arctan (y / x) - pi
      else if y > 0 then pi / 2
      else if y < 0 then - pi / 2
      else 0)"

text \<open>The haversine distance in metres, in exact real arithmetic, where the argument
  \<open>a\<close> of the square roots always lies between 0 and 1. The source computes in
  floating point: for two nearly antipodal points rounding can make \<open>a\<close> exceed 1, and
  \<^verbatim>\<open>math.sqrt(1-a)\<close> then raises \<^verbatim>\<open>ValueError\<close>. Rounding is outside this
  definition; the concrete distances used below are metres apart, far from that case.\<close>

definition calculate_distance :: "real \<Rightarrow> real \<Rightarrow> real \<Rightarrow> real \<Rightarrow> real" where
  "calculate_distance lat1 lon1 lat2 lon2 =
     (let R = 6371000;
          phi1 = radians lat1;
          phi2 = radians lat2;
          delta_phi = radians (lat2 - lat1);
          delta_lambda = radians (lon2 - lon1);
          a = (sin (delta_phi / 2))\<^sup>2 + cos phi1 * cos phi2 * (sin (delta_lambda / 2))\<^sup>2;
          c = 2 * atan2 (sqrt a) (sqrt (1 - a))
      in R * c)"

record group =
  group_id :: nat
  damage_type :: string
  center_lat :: real
  center_lon :: real
  detections :: "detection list"
  created :: "string option"

text \<open>The statistics that the end of \<^verbatim>\<open>group_detections\<close> adds to each group.\<close>

record group_stats = group +
  image_count :: nat
  avg_confidence :: real
  best_confidence :: real
  first_seen :: string
  last_seen :: string

text \<open>The sort key \<^verbatim>\<open>d.get('timestamp', '')\<close>.\<close>

definition timestamp_key :: "detection \<Rightarrow> string" where
  "timestamp_key d = get_or (timestamp d) []"

text \<open>Python's truth value of \<^verbatim>\<open>gps.get('latitude')\<close>: false when the key is
  absent and when the number is zero.\<close>

definition truthy :: "real option \<Rightarrow> bool" where
  "truthy v = (case v of None \<Rightarrow> False | Some x \<Rightarrow> x \<noteq> 0)"

text \<open>\<^verbatim>\<open>detection.get('gps', {})\<close>.\<close>

definition gps_or_empty :: "detection \<Rightarrow> gps" where
  "gps_or_empty d = get_or (gps d) \<lparr>latitude = None, longitude = None\<rparr>"

text \<open>Truth value of \<^verbatim>\<open>d.get('gps')\<close>: the dictionary is present and not empty.\<close>

definition has_gps :: "detection \<Rightarrow> bool" where
  "has_gps d =
     (case gps d of None \<Rightarrow> False | Some g \<Rightarrow> latitude g \<noteq> None \<or> longitude g \<noteq> None)"

text \<open>\<^verbatim>\<open>sum(d['gps'][key] for d in detections if d.get('gps'))\<close>; a missing key
  raises \<^verbatim>\<open>KeyError\<close>.\<close>

fun sum_gps :: "(gps \<Rightarrow> real option) \<Rightarrow> detection list \<Rightarrow> py_error + real" where
  "sum_gps key [] = Inr 0"
| "sum_gps key (d # ds) =
     (if has_gps d then
        (case key (gps_or_empty d) of
           None \<Rightarrow> Inl KeyError
         | Some v \<Rightarrow> (case sum_gps key ds of Inl e \<Rightarrow> Inl e | Inr rest_sum \<Rightarrow> Inr (v + rest_sum)))
      else sum_gps key ds)"

definition update_group_center :: "group \<Rightarrow> py_error + group" where
  "update_group_center grp =
     (case sum_gps latitude (detections grp) of
        Inl e \<Rightarrow> Inl e
      | Inr total_lat \<Rightarrow>
          (case sum_gps longitude (detections grp) of
             Inl e \<Rightarrow> Inl e
           | Inr total_lon \<Rightarrow>
               (let count_gps = length (filter has_gps (detections grp)) in
                if count_gps > 0
                then Inr (grp\<lparr>center_lat := total_lat / real count_gps,
                               center_lon := total_lon / real count_gps\<rparr>)
                else Inr grp)))"

text \<open>The condition of the inner loop: the group is within \<^verbatim>\<open>max_distance\<close> of
  the detection and has its damage type.\<close>

definition fits :: "real \<Rightarrow> real \<Rightarrow> real \<Rightarrow> string \<Rightarrow> group \<Rightarrow> bool" where
  "fits max_distance lat lon dtype grp =
     (calculate_distance lat lon (center_lat grp) (center_lon grp) \<le> max_distance
      \<and> damage_type grp = dtype)"

text \<open>The inner loop \<^verbatim>\<open>for group in groups\<close>: the first group that fits takes
  the detection and the loop breaks. \<open>None\<close> is \<^verbatim>\<open>found_group = False\<close>.\<close>

fun find_group ::
  "real \<Rightarrow> real \<Rightarrow> real \<Rightarrow> string \<Rightarrow> detection \<Rightarrow> group list \<Rightarrow> py_error + group list option" where
  "find_group max_distance lat lon dtype d [] = Inr None"
| "find_group max_distance lat lon dtype d (grp # rest) =
     (if fits max_distance lat lon dtype grp then
        (case update_group_center (grp\<lparr>detections := detections grp @ [d]\<rparr>) of
           Inl e \<Rightarrow> Inl e
         | Inr grp' \<Rightarrow> Inr (Some (grp' # rest)))
      else
        (case find_group max_distance lat lon dtype d rest of
           Inl e \<Rightarrow> Inl e
         | Inr None \<Rightarrow> Inr None
         | Inr (Some rest') \<Rightarrow> Inr (Some (grp # rest'))))"

text \<open>The body of the outer loop: what happens to the groups when one detection
  arrives.\<close>

definition add_detection :: "real \<Rightarrow> group list \<Rightarrow> detection \<Rightarrow> py_error + group list" where
  "add_detection max_distance groups d =
     (let g = gps_or_empty d in
      if \<not> truthy (latitude g) \<or> \<not> truthy (longitude g) then Inr groups
      else
        (case (latitude g, longitude g) of
           (Some lat, Some lon) \<Rightarrow>
             (let dtype = get_or (det_class d) ''unknown'' in
              case find_group max_distance lat lon dtype d groups of
                Inl e \<Rightarrow> Inl e
              | Inr (Some groups') \<Rightarrow> Inr groups'
              | Inr None \<Rightarrow>
                  Inr (groups @
                    [\<lparr>group_id = length groups + 1,
                      damage_type = dtype,
                      center_lat = lat,
                      center_lon = lon,
                      detections = [d],
                      created = timestamp d\<rparr>]))
         | _ \<Rightarrow> Inr groups))"

text \<open>The outer loop \<^verbatim>\<open>for detection in sorted_detections\<close>.\<close>

fun group_loop :: "real \<Rightarrow> group list \<Rightarrow> detection list \<Rightarrow> py_error + group list" where
  "group_loop max_distance groups [] = Inr groups"
| "group_loop max_distance groups (d # ds) =
     (case add_detection max_distance groups d of
        Inl e \<Rightarrow> Inl e
      | Inr groups' \<Rightarrow> group_loop max_distance groups' ds)"

text \<open>The statistics of one group; dividing by the length of an empty list raises
  \<^verbatim>\<open>ZeroDivisionError\<close>.\<close>

definition add_statistics :: "group \<Rightarrow> py_error + group_stats" where
  "add_statistics grp =
     (let dets = sort_key timestamp_key (detections grp);
          confs = map (\<lambda>d. get_or (det_confidence d) 0) dets
      in case confs of
           [] \<Rightarrow> Inl ZeroDivisionError
         | c # cs \<Rightarrow>
             Inr (group.extend (grp\<lparr>detections := dets\<rparr>)
                    \<lparr>image_count = length dets,
                     avg_confidence = sum_list confs / real (length dets),
                     best_confidence = foldl max c cs,
                     first_seen = timestamp_key (hd dets),
                     last_seen = timestamp_key (last dets)\<rparr>))"

fun statistics_loop :: "group list \<Rightarrow> py_error + group_stats list" where
  "statistics_loop [] = Inr []"
| "statistics_loop (grp # rest) =
     (case add_statistics grp of
        Inl e \<Rightarrow> Inl e
      | Inr g \<Rightarrow> (case statistics_loop rest of Inl e \<Rightarrow> Inl e | Inr gs \<Rightarrow> Inr (g # gs)))"

definition group_detections :: "real \<Rightarrow> detection list \<Rightarrow> py_error + group_stats list" where
  "group_detections max_distance dets =
     (if dets = [] then Inr []
      else
        (let sorted_detections = sort_key timestamp_key dets in
         case group_loop max_distance [] sorted_detections of
           Inl e \<Rightarrow> Inl e
         | Inr groups \<Rightarrow> statistics_loop groups))"

text \<open>\<^verbatim>\<open>DamageGrouper.__init__(self, max_distance: float = 1.0)\<close>.\<close>

definition default_max_distance :: real where
  "default_max_distance = 1.0"

text \<open>\<^verbatim>\<open>_calculate_severity(group)\<close> on a finished group.\<close>

definition group_severity :: "group_stats \<Rightarrow> severity" where
  "group_severity g = grouper_calculate_severity (damage_type g) (best_confidence g) (image_count g)"

text \<open>The detections that pass the test at the head of the outer loop: latitude and
  longitude are both present and not zero.\<close>

definition gps_ok :: "detection \<Rightarrow> bool" where
  "gps_ok d = (truthy (latitude (gps_or_empty d)) \<and> truthy (longitude (gps_or_empty d)))"

text \<open>The coordinates and the damage type the loop body reads from a detection.\<close>

definition lat_of :: "detection \<Rightarrow> real" where
  "lat_of d = get_or (latitude (gps_or_empty d)) 0"

definition lon_of :: "detection \<Rightarrow> real" where
  "lon_of d = get_or (longitude (gps_or_empty d)) 0"

definition class_of :: "detection \<Rightarrow> string" where
  "class_of d = get_or (det_class d) ''unknown''"

text \<open>A group after a detection has joined it: the detection is appended and the
  centre is the mean position of all members.\<close>

definition with_member :: "group \<Rightarrow> detection \<Rightarrow> group" where
  "with_member grp d =
     grp\<lparr>detections := detections grp @ [d],
         center_lat := sum_list (map lat_of (detections grp @ [d])) / real (length (detections grp) + 1),
         center_lon := sum_list (map lon_of (detections grp @ [d])) / real (length (detections grp) + 1)\<rparr>"

text \<open>The group created for a detection that no group takes.\<close>

definition new_group :: "group list \<Rightarrow> detection \<Rightarrow> group" where
  "new_group groups d =
     \<lparr>group_id = length groups + 1, damage_type = class_of d,
      center_lat = lat_of d, center_lon = lon_of d, detections = [d], created = timestamp d\<rparr>"

text \<open>Pothole detections on the meridian of 11 degrees east: three near 48 degrees
  north, about 1.1 m, 0.67 m and 0.44 m apart, and one on the equator; and the groups
  they form.\<close>

definition example_detection :: "string \<Rightarrow> real \<Rightarrow> real \<Rightarrow> string \<Rightarrow> detection" where
  "example_detection ts lat lon cls =
     \<lparr>timestamp = Some ts, gps = Some \<lparr>latitude = Some lat, longitude = Some lon\<rparr>,
      det_class = Some cls, det_confidence = Some 0.9, image_name = None\<rparr>"

definition event_1 :: detection where
  "event_1 = example_detection ''2025-01-01T12:00:01'' 48 11 ''pothole''"

definition event_2 :: detection where
  "event_2 = example_detection ''2025-01-01T12:00:02'' 48.00001 11 ''pothole''"

definition event_3 :: detection where
  "event_3 = example_detection ''2025-01-01T12:00:03'' 48.000006 11 ''pothole''"

definition event_0 :: detection where
  "event_0 = example_detection ''2025-01-01T12:00:00'' 0 11 ''pothole''"

definition group_A :: group where
  "group_A = \<lparr>group_id = 1, damage_type = ''pothole'', center_lat = 48, center_lon = 11,
      detections = [event_1], created = Some ''2025-01-01T12:00:01''\<rparr>"

definition group_B :: group where
  "group_B = \<lparr>group_id = 2, damage_type = ''pothole'', center_lat = 48.00001, center_lon = 11,
      detections = [event_2], created = Some ''2025-01-01T12:00:02''\<rparr>"

definition stats_A :: group_stats where
  "stats_A = \<lparr>group_id = 1, damage_type = ''pothole'', center_lat = 48, center_lon = 11,
      detections = [event_1], created = Some ''2025-01-01T12:00:01'',
      image_count = 1, avg_confidence = 0.9, best_confidence = 0.9,
      first_seen = ''2025-01-01T12:00:01'', last_seen = ''2025-01-01T12:00:01''\<rparr>"

definition group_A3 :: group where
  "group_A3 = \<lparr>group_id = 1, damage_type = ''pothole'', center_lat = 48.000003, center_lon = 11,
      detections = [event_1, event_3], created = Some ''2025-01-01T12:00:01''\<rparr>"

text \<open>The state of the outer loop on a time-sorted input: every group is non-empty,
  its members have usable coordinates and are in time order, and none is later than a
  detection still to come.\<close>

definition time_ordered :: "group list \<Rightarrow> detection list \<Rightarrow> bool" where
  "time_ordered groups ds =
     (sorted (map timestamp_key ds)
      \<and> (\<forall>g \<in> set groups.
            detections g \<noteq> [] \<and> sorted (map timestamp_key (detections g))
            \<and> (\<forall>m \<in> set (detections g).
                  gps_ok m \<and> (\<forall>d \<in> set ds. timestamp_key m \<le> timestamp_key d))))"

section \<open>Properties of the severity classifiers\<close>

text \<open>
  C6, as the code has it. For a damage type without an entry in the configured table
  \<^verbatim>\<open>severity_rules\<close>, \<^verbatim>\<open>AutoLiveSystem.calculate_severity\<close> returns high
  when the confidence is at least 0.85, medium when it is at least 0.70 and low
  otherwise. \<^verbatim>\<open>DamageGrouper._calculate_severity\<close>, the classifier of clusters,
  has no such default: for every type other than pothole and crack it returns low,
  whatever the best confidence and the number of images.
\<close>

theorem default_severity_rule:
  "(rules dtype = None \<longrightarrow>
      calculate_severity rules dtype c =
        (if c \<ge> 0.85 then High else if c \<ge> 0.70 then Medium else Low))
   \<and> (lower group_type \<noteq> ''pothole'' \<and> lower group_type \<noteq> ''crack'' \<longrightarrow>
      grouper_calculate_severity group_type best n = Low)"
  by (simp add: calculate_severity_def grouper_calculate_severity_def)

theorem default_severity_rule_witness:
  "calculate_severity Map.empty ''bump'' 0.9 = High
   \<and> grouper_calculate_severity ''bump'' 0.9 1 = Low"
  using default_severity_rule [of Map.empty "''bump''" "0.9" "''bump''" "0.9" 1]
  by (simp add: lower_def lower_char_def)

text \<open>
  C6 as stated fails on the classifier of clusters: a cluster of type
  \<^verbatim>\<open>bump\<close> (a class of the detector, without a branch of its own) with best
  confidence 0.9 is not classified high.
\<close>

theorem cluster_default_counterexample:
  "(0.85::real) \<le> 0.9 \<and> grouper_calculate_severity ''bump'' 0.9 1 \<noteq> High"
  by (simp add: grouper_calculate_severity_def lower_def lower_char_def)

text \<open>
  C8. For a fixed damage type and a fixed number of images, a higher confidence never
  gives a lower severity, with low < medium < high. This holds for the classifier of
  clusters and for the classifier with configured thresholds, whatever the table holds.
\<close>

theorem severity_monotone:
  "c1 \<le> c2 \<Longrightarrow>
     severity_rank (grouper_calculate_severity ty c1 n)
       \<le> severity_rank (grouper_calculate_severity ty c2 n)
     \<and> severity_rank (calculate_severity rules ty c1)
       \<le> severity_rank (calculate_severity rules ty c2)"
  by (auto simp: calculate_severity_def grouper_calculate_severity_def Let_def)

theorem severity_monotone_witness:
  "severity_rank (grouper_calculate_severity ''pothole'' 0.5 1)
     \<le> severity_rank (grouper_calculate_severity ''pothole'' 0.9 1)
   \<and> severity_rank (calculate_severity Map.empty ''pothole'' 0.5)
     \<le> severity_rank (calculate_severity Map.empty ''pothole'' 0.9)"
  using severity_monotone [of "0.5" "0.9" "''pothole''" 1 Map.empty] by simp

section \<open>Properties of the route segmenter\<close>

lemma example_segments:
  "segment_by_surface (Some example_geodesic) example_route (example_surfaces l0 l1) =
     [\<lparr>seg_coordinates = [(11, 48)], seg_surface_type = l0, seg_confidence = 0.9\<rparr>,
      \<lparr>seg_coordinates = [(11, 49)], seg_surface_type = l1, seg_confidence = 0.8\<rparr>]"
  by (simp add: segment_by_surface_def example_route_def example_surfaces_def passed_to_def
      example_geodesic_def close_segment_def)

lemma concat_close_segment:
  "concat (map seg_coordinates (close_segment segs cur)) =
     concat (map seg_coordinates segs) @ seg_coordinates cur"
  by (simp add: close_segment_def)

lemma concat_segment_loop:
  "concat (map seg_coordinates (segment_loop geod surfaces cs segs cur idx)) =
     concat (map seg_coordinates segs) @ seg_coordinates cur @ cs"
  by (induction cs arbitrary: segs cur idx) (simp_all add: concat_close_segment Let_def)

text \<open>
  C3, as the code has it. For every route and every list of surface samples, joining
  the coordinate lists of the output segments in order gives the route back exactly: no
  point is dropped, repeated or moved. The segments do not overlap; the point at which a
  new segment opens belongs to the new segment only.
\<close>

theorem segments_partition_route:
  "concat (map seg_coordinates (segment_by_surface geod coords surfaces)) = coords"
  by (cases surfaces) (simp_all add: segment_by_surface_def concat_segment_loop)

text \<open>
  C3 as stated fails: on a route of two points with a surface sample at each, the two
  segments have no point in common, and leaving out the first point of the second segment
  as a shared boundary loses that point.
\<close>

theorem shared_boundary_counterexample:
  "\<not> shares_boundary (segment_by_surface (Some example_geodesic) example_route
        (example_surfaces ''asphalt_good'' ''cobblestone''))
   \<and> join_shared_boundary (map seg_coordinates
        (segment_by_surface (Some example_geodesic) example_route
          (example_surfaces ''asphalt_good'' ''cobblestone''))) \<noteq> example_route"
  unfolding example_segments by (simp add: join_shared_boundary_def example_route_def)

text \<open>
  C7 at a failing input: a route of two points and two surface samples with the same
  label, each reached by the route. The function's docstring reads "Segment route by
  surface type changes", and C7 says that a new segment starts exactly when the label
  differs from the previous point's label, so that adjacent segments never carry the same
  label. The function opens a second segment at the second sample although the label has
  not changed: it returns two adjacent segments that both carry \<^verbatim>\<open>asphalt_good\<close>.
\<close>

theorem same_label_adjacent_segments:
  "segment_by_surface (Some example_geodesic) example_route
     (example_surfaces ''asphalt_good'' ''asphalt_good'')
     = [\<lparr>seg_coordinates = [(11, 48)], seg_surface_type = ''asphalt_good'', seg_confidence = 0.9\<rparr>,
        \<lparr>seg_coordinates = [(11, 49)], seg_surface_type = ''asphalt_good'', seg_confidence = 0.8\<rparr>]
   \<and> \<not> adjacent_labels_differ (segment_by_surface (Some example_geodesic) example_route
        (example_surfaces ''asphalt_good'' ''asphalt_good''))"
  by (simp add: example_segments)

lemma slice_snoc:
  assumes "k \<le> idx" "idx < length xs"
  shows "take (idx - k) (drop k xs) @ [xs ! idx] = take (Suc idx - k) (drop k xs)"
proof -
  have "idx - k < length (drop k xs)" using assms by simp
  then have "take (Suc (idx - k)) (drop k xs) = take (idx - k) (drop k xs) @ [drop k xs ! (idx - k)]"
    by (rule take_Suc_conv_app_nth)
  moreover have "drop k xs ! (idx - k) = xs ! idx" using assms by simp
  moreover have "Suc (idx - k) = Suc idx - k" using assms by simp
  ultimately show ?thesis by simp
qed

lemma labels_segment_loop:
  assumes "idx < length surfaces"
    and "k \<le> idx"
    and "map seg_label segs = take (idx - k) (drop k (map sd_label surfaces))"
    and "seg_label cur = sd_label (surfaces ! idx)"
    and "seg_coordinates cur = [] \<longrightarrow> segs = []"
  shows "\<exists>k n. map seg_label (segment_loop geod surfaces cs segs cur idx) =
           take n (drop k (map sd_label surfaces))"
  using assms
proof (induction cs arbitrary: segs cur idx k)
  case Nil
  show ?case
  proof (cases "seg_coordinates cur = []")
    case True
    with Nil show ?thesis by (auto simp: close_segment_def intro: exI [of _ 0])
  next
    case False
    have "map seg_label (segs @ [cur]) = take (Suc idx - k) (drop k (map sd_label surfaces))"
      using Nil slice_snoc [of k idx "map sd_label surfaces"] by simp
    with False show ?thesis by (auto simp: close_segment_def)
  qed
next
  case (Cons c cs)
  show ?case
  proof (cases "idx < length surfaces - 1 \<and> passed_to geod c (surfaces ! (idx + 1))")
    case False
    let ?cur = "cur\<lparr>seg_coordinates := seg_coordinates cur @ [c]\<rparr>"
    have "\<exists>k n. map seg_label (segment_loop geod surfaces cs segs ?cur idx) =
           take n (drop k (map sd_label surfaces))"
      using Cons.prems by (intro Cons.IH [of idx k]) (simp_all add: seg_label_def)
    with False show ?thesis by auto
  next
    case True
    let ?new = "\<lparr>seg_coordinates = [c], seg_surface_type = sd_surface_type (surfaces ! (idx + 1)),
                 seg_confidence = sd_confidence (surfaces ! (idx + 1))\<rparr>"
    have lt: "Suc idx < length surfaces" using True by linarith
    have "\<exists>k n. map seg_label (segment_loop geod surfaces cs (close_segment segs cur) ?new (Suc idx)) =
           take n (drop k (map sd_label surfaces))"
    proof (cases "seg_coordinates cur = []")
      case True
      with Cons.prems have "close_segment segs cur = []" by (simp add: close_segment_def)
      then show ?thesis using lt
        by (intro Cons.IH [of "Suc idx" "Suc idx"]) (simp_all add: seg_label_def sd_label_def)
    next
      case False
      have "map seg_label (segs @ [cur]) = take (Suc idx - k) (drop k (map sd_label surfaces))"
        using Cons.prems slice_snoc [of k idx "map sd_label surfaces"] by simp
      with False have cl: "map seg_label (close_segment segs cur) =
          take (Suc idx - k) (drop k (map sd_label surfaces))"
        by (simp add: close_segment_def)
      show ?thesis
      proof (rule Cons.IH [of "Suc idx" k])
        show "Suc idx < length surfaces" by (rule lt)
        show "k \<le> Suc idx" using Cons.prems by simp
        show "map seg_label (close_segment segs cur) =
          take (Suc idx - k) (drop k (map sd_label surfaces))" by (rule cl)
        show "seg_label ?new = sd_label (surfaces ! Suc idx)"
          by (simp add: seg_label_def sd_label_def)
        show "seg_coordinates ?new = [] \<longrightarrow> close_segment segs cur = []" by simp
      qed
    qed
    with True show ?thesis by (simp add: Let_def)
  qed
qed

lemma segment_labels_follow_surfaces:
  "surfaces \<noteq> [] \<Longrightarrow>
     sublist (map seg_label (segment_by_surface geod coords surfaces)) (map sd_label surfaces)"
proof -
  assume ne: "surfaces \<noteq> []"
  then obtain s0 rest where s: "surfaces = s0 # rest" by (cases surfaces) auto
  let ?cur = "\<lparr>seg_coordinates = [], seg_surface_type = sd_surface_type s0, seg_confidence = sd_confidence s0\<rparr>"
  have "\<exists>k n. map seg_label (segment_loop geod surfaces coords [] ?cur 0) =
           take n (drop k (map sd_label surfaces))"
    by (rule labels_segment_loop [of 0 surfaces 0]) (simp_all add: s seg_label_def sd_label_def)
  then obtain k n where "map seg_label (segment_by_surface geod coords surfaces) =
           take n (drop k (map sd_label surfaces))"
    by (auto simp: segment_by_surface_def s)
  moreover have "map sd_label surfaces = take k (map sd_label surfaces) @ take n (drop k (map sd_label surfaces)) @ drop n (drop k (map sd_label surfaces))"
    by (simp only: append_take_drop_id)
  ultimately show ?thesis unfolding sublist_def by metis
qed

lemma close_segment_nonempty:
  "\<forall>s \<in> set segs. seg_coordinates s \<noteq> [] \<Longrightarrow>
     \<forall>s \<in> set (close_segment segs cur). seg_coordinates s \<noteq> []"
  by (simp add: close_segment_def)

lemma segment_loop_nonempty:
  "\<forall>s \<in> set segs. seg_coordinates s \<noteq> [] \<Longrightarrow>
     \<forall>s \<in> set (segment_loop geod surfaces cs segs cur idx). seg_coordinates s \<noteq> []"
proof (induction cs arbitrary: segs cur idx)
  case Nil
  then show ?case by (simp add: close_segment_nonempty)
next
  case (Cons c cs)
  show ?case
  proof (cases "idx < length surfaces - 1 \<and> passed_to geod c (surfaces ! (idx + 1))")
    case True
    have "\<forall>s \<in> set (close_segment segs cur). seg_coordinates s \<noteq> []"
      using Cons.prems by (rule close_segment_nonempty)
    from Cons.IH [OF this] show ?thesis using True by (simp add: Let_def)
  next
    case False
    from Cons.IH [OF Cons.prems] show ?thesis using False by auto
  qed
qed

lemma segment_loop_no_sample_reached:
  assumes "\<forall>c \<in> set cs. \<forall>s \<in> set surfaces. \<not> passed_to geod c s"
  shows "segment_loop geod surfaces cs segs cur idx =
           close_segment segs (cur\<lparr>seg_coordinates := seg_coordinates cur @ cs\<rparr>)"
  using assms
proof (induction cs arbitrary: cur)
  case Nil
  show ?case by simp
next
  case (Cons c cs)
  have "\<not> (idx < length surfaces - 1 \<and> passed_to geod c (surfaces ! (idx + 1)))"
  proof
    assume h: "idx < length surfaces - 1 \<and> passed_to geod c (surfaces ! (idx + 1))"
    then have "surfaces ! (idx + 1) \<in> set surfaces" by (intro nth_mem) linarith
    with h Cons.prems show False by auto
  qed
  moreover have "\<forall>c \<in> set cs. \<forall>s \<in> set surfaces. \<not> passed_to geod c s" using Cons.prems by simp
  ultimately show ?case
    using Cons.IH [of "cur\<lparr>seg_coordinates := seg_coordinates cur @ [c]\<rparr>"] by auto
qed

text \<open>
  What the segmenter computes whatever the labels are: every output segment is non-empty
  and carries the label and confidence of one surface sample, the segments follow
  consecutive samples in the samples' order, and when no route point is within 5 m of a
  sample (or the distance function is unavailable) the whole route is one segment with the
  first sample's label.
\<close>

lemma segments_follow_surface_samples:
  assumes "surfaces \<noteq> []"
  shows "sublist (map seg_label (segment_by_surface geod coords surfaces)) (map sd_label surfaces)
       \<and> (\<forall>s \<in> set (segment_by_surface geod coords surfaces). seg_coordinates s \<noteq> [])
       \<and> ((\<forall>c \<in> set coords. \<forall>s \<in> set surfaces. \<not> passed_to geod c s) \<longrightarrow>
            segment_by_surface geod coords surfaces =
              (if coords = [] then []
               else [\<lparr>seg_coordinates = coords,
                      seg_surface_type = sd_surface_type (hd surfaces),
                      seg_confidence = sd_confidence (hd surfaces)\<rparr>]))"
proof -
  obtain s0 rest where s: "surfaces = s0 # rest" using assms by (cases surfaces) auto
  have a: "sublist (map seg_label (segment_by_surface geod coords surfaces)) (map sd_label surfaces)"
    using assms by (rule segment_labels_follow_surfaces)
  have b: "\<forall>s \<in> set (segment_by_surface geod coords surfaces). seg_coordinates s \<noteq> []"
    using segment_loop_nonempty [of "[]" geod surfaces coords] by (simp add: segment_by_surface_def s)
  have c: "(\<forall>c \<in> set coords. \<forall>s \<in> set surfaces. \<not> passed_to geod c s) \<longrightarrow>
            segment_by_surface geod coords surfaces =
              (if coords = [] then []
               else [\<lparr>seg_coordinates = coords,
                      seg_surface_type = sd_surface_type (hd surfaces),
                      seg_confidence = sd_confidence (hd surfaces)\<rparr>])"
  proof
    assume "\<forall>c \<in> set coords. \<forall>s \<in> set surfaces. \<not> passed_to geod c s"
    from segment_loop_no_sample_reached [OF this]
    show "segment_by_surface geod coords surfaces =
              (if coords = [] then []
               else [\<lparr>seg_coordinates = coords,
                      seg_surface_type = sd_surface_type (hd surfaces),
                      seg_confidence = sd_confidence (hd surfaces)\<rparr>])"
      by (simp add: segment_by_surface_def s close_segment_def)
  qed
  show ?thesis using a b c by blast
qed

section \<open>Properties of the surface smoother\<close>

lemma max_from_mem: "max_from key b xs \<in> set (b # xs)"
  by (induction xs arbitrary: b) auto

lemma max_from_ge_best: "key b \<le> key (max_from key b xs)"
proof (induction xs arbitrary: b)
  case Nil
  show ?case by simp
next
  case (Cons x xs)
  have "key b \<le> key (if key b < key x then x else b)" by simp
  also have "\<dots> \<le> key (max_from key (if key b < key x then x else b) xs)" by (rule Cons.IH)
  finally show ?case by simp
qed

lemma max_from_ge: "y \<in> set (b # xs) \<Longrightarrow> key y \<le> key (max_from key b xs)"
proof (induction xs arbitrary: b)
  case Nil
  then show ?case by simp
next
  case (Cons x xs)
  let ?b = "if key b < key x then x else b"
  have step: "max_from key b (x # xs) = max_from key ?b xs" by simp
  consider "y = b" | "y = x" | "y \<in> set xs" using Cons.prems by auto
  then show ?case
  proof cases
    case 1
    have "key b \<le> key ?b" by simp
    also have "\<dots> \<le> key (max_from key ?b xs)" by (rule max_from_ge_best)
    finally show ?thesis using 1 step by simp
  next
    case 2
    have "key x \<le> key ?b" by simp
    also have "\<dots> \<le> key (max_from key ?b xs)" by (rule max_from_ge_best)
    finally show ?thesis using 2 step by simp
  next
    case 3
    then have "key y \<le> key (max_from key ?b xs)" by (intro Cons.IH) simp
    then show ?thesis using step by simp
  qed
qed

lemma max_from_first:
  "List.find (\<lambda>y. key y = key (max_from key b xs)) (b # xs) = Some (max_from key b xs)"
proof (induction xs arbitrary: b)
  case Nil
  show ?case by simp
next
  case (Cons x xs)
  define b' where "b' = (if key b < key x then x else b)"
  define m where "m = max_from key b' xs"
  have step: "max_from key b (x # xs) = m" by (simp add: m_def b'_def)
  have IH: "List.find (\<lambda>y. key y = key m) (b' # xs) = Some m"
    unfolding m_def by (rule Cons.IH)
  have ge: "key b' \<le> key m" unfolding m_def by (rule max_from_ge_best)
  have goal: "List.find (\<lambda>y. key y = key m) (b # x # xs) = Some m"
  proof (cases "key b < key x")
    case True
    then have b': "b' = x" by (simp add: b'_def)
    from True ge b' have "key b \<noteq> key m" by auto
    then show ?thesis using IH b' by simp
  next
    case False
    then have b': "b' = b" by (simp add: b'_def)
    show ?thesis
    proof (cases "key b = key m")
      case True
      then show ?thesis using IH b' by simp
    next
      case neq: False
      from False ge b' neq have "key x \<noteq> key m" by auto
      then show ?thesis using IH b' neq by simp
    qed
  qed
  show ?case unfolding step by (rule goal)
qed

lemma py_max_first:
  assumes "xs \<noteq> []"
  shows "\<exists>m. py_max key xs = Inr m \<and> m \<in> set xs \<and> (\<forall>y \<in> set xs. key y \<le> key m)
           \<and> List.find (\<lambda>y. \<forall>z \<in> set xs. key z \<le> key y) xs = Some m"
proof -
  from assms obtain b rest where xs: "xs = b # rest" by (cases xs) auto
  let ?m = "max_from key b rest"
  have mem: "?m \<in> set xs" unfolding xs by (rule max_from_mem)
  have ge: "\<forall>y \<in> set xs. key y \<le> key ?m"
    unfolding xs using max_from_ge [of _ b rest key] by blast
  have "List.find (\<lambda>y. \<forall>z \<in> set xs. key z \<le> key y) xs = List.find (\<lambda>y. key y = key ?m) xs"
  proof (rule find_cong [OF refl])
    fix y assume y: "y \<in> set xs"
    show "(\<forall>z \<in> set xs. key z \<le> key y) = (key y = key ?m)"
    proof
      assume "\<forall>z \<in> set xs. key z \<le> key y"
      then have "key ?m \<le> key y" using mem by blast
      moreover have "key y \<le> key ?m" using ge y by blast
      ultimately show "key y = key ?m" by simp
    next
      assume "key y = key ?m"
      then show "\<forall>z \<in> set xs. key z \<le> key y" using ge by simp
    qed
  qed
  also have "\<dots> = Some ?m" unfolding xs by (rule max_from_first)
  finally have "List.find (\<lambda>y. \<forall>z \<in> set xs. key z \<le> key y) xs = Some ?m" .
  then show ?thesis using mem ge by (simp add: py_max_def xs)
qed

lemma vote_is_first_maximum:
  assumes "surface_buffer \<noteq> []"
    and "set (set_iter (map fst surface_buffer)) = set (map fst surface_buffer)"
  shows "\<exists>label conf. majority_vote set_iter surface_buffer = Inr (label, conf)
           \<and> label \<in> set (map fst surface_buffer)
           \<and> (\<forall>u \<in> set (map fst surface_buffer).
                 count_list (map fst surface_buffer) u \<le> count_list (map fst surface_buffer) label)
           \<and> List.find (\<lambda>t. \<forall>u \<in> set (map fst surface_buffer).
                 count_list (map fst surface_buffer) u \<le> count_list (map fst surface_buffer) t)
               (set_iter (map fst surface_buffer)) = Some label
           \<and> mean (map snd (filter (\<lambda>s. fst s = label) surface_buffer)) = Inr conf"
proof -
  let ?types = "map fst surface_buffer"
  have ne: "set_iter ?types \<noteq> []" using assms by (metis list.map_disc_iff set_empty)
  from py_max_first [OF ne, of "count_list ?types"]
  obtain m where m: "py_max (count_list ?types) (set_iter ?types) = Inr m"
    "m \<in> set (set_iter ?types)"
    "\<forall>y \<in> set (set_iter ?types). count_list ?types y \<le> count_list ?types m"
    "List.find (\<lambda>y. \<forall>z \<in> set (set_iter ?types). count_list ?types z \<le> count_list ?types y)
       (set_iter ?types) = Some m"
    by blast
  have "m \<in> fst ` set surface_buffer" using m(2) assms(2) by simp
  then have "filter (\<lambda>s. fst s = m) surface_buffer \<noteq> []"
    by (auto simp: filter_empty_conv)
  then obtain c where c: "mean (map snd (filter (\<lambda>s. fst s = m) surface_buffer)) = Inr c"
    by (simp add: mean_def)
  have "majority_vote set_iter surface_buffer = Inr (m, c)"
    using m(1) c by (simp add: majority_vote_def)
  then show ?thesis using m c assms(2) by auto
qed

text \<open>
  C4, as the code has it. When smoothing is enabled and the window holds at least two
  samples after the new one is appended, the output label is a label of the window with
  the highest occurrence count, and among the labels that tie for the highest count it is
  the one that the iteration over \<^verbatim>\<open>set(types)\<close> visits first. The position of
  a label in the window plays no part. The output confidence is the mean confidence of the
  window's samples with that label. For a fixed iteration order the output is a function
  of the window.
\<close>

theorem smoothed_label_is_first_maximum:
  assumes "get_or smoothing True"
    and "window = deque_append smoothing_window surface_buffer sample"
    and "2 \<le> length window"
    and "set (set_iter (map fst window)) = set (map fst window)"
  shows "\<exists>label conf.
           smooth_surface set_iter smoothing smoothing_window surface_buffer sample
             = Inr (window, (label, conf))
           \<and> label \<in> set (map fst window)
           \<and> (\<forall>u \<in> set (map fst window).
                 count_list (map fst window) u \<le> count_list (map fst window) label)
           \<and> List.find (\<lambda>t. \<forall>u \<in> set (map fst window).
                 count_list (map fst window) u \<le> count_list (map fst window) t)
               (set_iter (map fst window)) = Some label
           \<and> mean (map snd (filter (\<lambda>s. fst s = label) window)) = Inr conf"
proof -
  have ne: "window \<noteq> []" using assms(3) by auto
  from vote_is_first_maximum [of window set_iter, OF ne assms(4)]
  obtain label conf where v: "majority_vote set_iter window = Inr (label, conf)"
    "label \<in> set (map fst window)"
    "\<forall>u \<in> set (map fst window).
        count_list (map fst window) u \<le> count_list (map fst window) label"
    "List.find (\<lambda>t. \<forall>u \<in> set (map fst window).
        count_list (map fst window) u \<le> count_list (map fst window) t)
      (set_iter (map fst window)) = Some label"
    "mean (map snd (filter (\<lambda>s. fst s = label) window)) = Inr conf"
    by blast
  have "smooth_surface set_iter smoothing smoothing_window surface_buffer sample
          = Inr (window, (label, conf))"
    using assms(1,3) v(1) unfolding smooth_surface_def assms(2) [symmetric] by (simp add: Let_def)
  with v show ?thesis by blast
qed

theorem smoothed_label_is_first_maximum_witness:
  "get_or None True
   \<and> example_window = deque_append 3 [(''asphalt_good'', 0.9)] (''cobblestone'', 0.8)
   \<and> 2 \<le> length example_window
   \<and> set (reversed_order (map fst example_window)) = set (map fst example_window)
   \<and> (\<exists>label conf.
           smooth_surface reversed_order None 3 [(''asphalt_good'', 0.9)] (''cobblestone'', 0.8)
             = Inr (example_window, (label, conf))
           \<and> label \<in> set (map fst example_window)
           \<and> (\<forall>u \<in> set (map fst example_window).
                 count_list (map fst example_window) u \<le> count_list (map fst example_window) label)
           \<and> List.find (\<lambda>t. \<forall>u \<in> set (map fst example_window).
                 count_list (map fst example_window) u \<le> count_list (map fst example_window) t)
               (reversed_order (map fst example_window)) = Some label
           \<and> mean (map snd (filter (\<lambda>s. fst s = label) example_window)) = Inr conf)"
proof -
  have h1: "get_or None True" by simp
  have h2: "example_window = deque_append 3 [(''asphalt_good'', 0.9)] (''cobblestone'', 0.8)"
    by (simp add: example_window_def deque_append_def)
  have h3: "2 \<le> length example_window" by (simp add: example_window_def)
  have h4: "set (reversed_order (map fst example_window)) = set (map fst example_window)"
    by (simp add: reversed_order_def)
  show ?thesis
    using h1 h2 h3 h4
      smoothed_label_is_first_maximum [of None example_window 3 "[(''asphalt_good'', 0.9)]"
        "(''cobblestone'', 0.8)" reversed_order, OF h1 h2 h3 h4]
    by blast
qed

text \<open>
  C4 as stated fails: in the window \<^verbatim>\<open>[asphalt_good, cobblestone]\<close> both labels
  occur once and \<^verbatim>\<open>asphalt_good\<close> appears first, but when the set is visited in
  the order \<^verbatim>\<open>cobblestone, asphalt_good\<close> the vote is \<^verbatim>\<open>cobblestone\<close>.
  CPython visits this very set in either order, depending on the hash seed of the process.
\<close>

theorem tie_break_counterexample:
  "majority_vote reversed_order example_window = Inr (''cobblestone'', 0.8)
   \<and> spec_vote (map fst example_window) = Some ''asphalt_good''
   \<and> smooth_surface reversed_order None 3 [(''asphalt_good'', 0.9)] (''cobblestone'', 0.8)
       = Inr (example_window, (''cobblestone'', 0.8))"
  by (simp add: majority_vote_def reversed_order_def example_window_def py_max_def mean_def
      spec_vote_def smooth_surface_def deque_append_def)

section \<open>Properties of the upload and backup pipeline\<close>

lemma is_backup_name_example: "is_backup_name ''backup_20250101_120000.geojson''"
  by (simp add: is_backup_name_def suffix_to_prefix)

lemma cleanup_zero_keeps_all: "cleanup_old_backups 0 dir = dir"
  by (simp add: cleanup_old_backups_def slice_to_minus_def Let_def)

lemma foldl_unlink:
  "foldl (\<lambda>d old_file. unlink (bf_name old_file) d) dir old
     = filter (\<lambda>f. bf_name f \<notin> bf_name ` set old) dir"
proof (induction old arbitrary: dir)
  case Nil
  show ?case by simp
next
  case (Cons x old)
  have "filter (\<lambda>f. bf_name f \<notin> bf_name ` set old) (unlink (bf_name x) dir)
      = filter (\<lambda>f. bf_name f \<notin> bf_name ` set (x # old)) dir"
    by (auto simp: unlink_def intro: filter_cong)
  then show ?case using Cons.IH [of "unlink (bf_name x) dir"] by simp
qed

lemma length_filter_removed:
  assumes "distinct xs" "distinct ys" "set ys \<subseteq> set xs"
  shows "length (filter (\<lambda>x. x \<notin> set ys) xs) = length xs - length ys"
proof -
  have "distinct (filter (\<lambda>x. x \<notin> set ys) xs)" using assms(1) by simp
  then have "length (filter (\<lambda>x. x \<notin> set ys) xs) = card (set (filter (\<lambda>x. x \<notin> set ys) xs))"
    by (rule distinct_card [symmetric])
  also have "set (filter (\<lambda>x. x \<notin> set ys) xs) = set xs - set ys" by auto
  also have "card (set xs - set ys) = card (set xs) - card (set ys)"
    using assms(3) by (simp add: card_Diff_subset)
  also have "\<dots> = length xs - length ys" using assms(1,2) by (simp add: distinct_card)
  finally show ?thesis .
qed

lemma remaining_backups:
  assumes "distinct (map bf_name dir)" and "set old \<subseteq> set dir"
  shows "filter (\<lambda>f. is_backup_name (bf_name f))
           (filter (\<lambda>f. bf_name f \<notin> bf_name ` set old) dir)
         = filter (\<lambda>f. f \<notin> set old) (filter (\<lambda>f. is_backup_name (bf_name f)) dir)"
proof -
  have inj: "inj_on bf_name (set dir)" using assms(1) by (simp add: distinct_map)
  have "\<And>f. f \<in> set dir \<Longrightarrow> (bf_name f \<notin> bf_name ` set old) = (f \<notin> set old)"
    using inj assms(2) by (auto dest: inj_onD)
  then have "filter (\<lambda>f. bf_name f \<notin> bf_name ` set old) dir = filter (\<lambda>f. f \<notin> set old) dir"
    by (intro filter_cong) auto
  then show ?thesis by (simp add: conj_commute)
qed

text \<open>
  Rotation with a limit of at least one: at most \<^verbatim>\<open>max_backup_files\<close> backup files
  remain, and a backup file that is strictly newer than every other one is kept.
\<close>

lemma rotation_within_limit:
  assumes "distinct (map bf_name dir)" and "1 \<le> max_files"
  shows "int (length (filter (\<lambda>f. is_backup_name (bf_name f)) (cleanup_old_backups max_files dir)))
           \<le> max_files"
proof -
  define X where "X = filter (\<lambda>f. is_backup_name (bf_name f)) dir"
  define B where "B = sort_key bf_mtime X"
  show ?thesis
  proof (cases "int (length B) > max_files")
    case False
    then show ?thesis by (simp add: cleanup_old_backups_def B_def X_def Let_def)
  next
    case True
    define k where "k = length B - nat max_files"
    define old where "old = take k B"
    have sl: "slice_to_minus B max_files = old"
      using assms(2) True by (simp add: slice_to_minus_def old_def k_def Let_def nat_diff_distrib')
    have dX: "distinct X" using assms(1) by (simp add: X_def distinct_map)
    have dB: "distinct B" using dX by (simp add: B_def)
    have sub: "set old \<subseteq> set X" unfolding old_def B_def using set_take_subset [of k "sort_key bf_mtime X"] by simp
    then have sub': "set old \<subseteq> set dir" by (auto simp: X_def)
    have "cleanup_old_backups max_files dir = filter (\<lambda>f. bf_name f \<notin> bf_name ` set old) dir"
      using True sl by (simp add: cleanup_old_backups_def B_def X_def Let_def foldl_unlink)
    then have "filter (\<lambda>f. is_backup_name (bf_name f)) (cleanup_old_backups max_files dir)
        = filter (\<lambda>f. f \<notin> set old) X"
      using remaining_backups [OF assms(1) sub'] by (simp add: X_def)
    moreover have "length (filter (\<lambda>f. f \<notin> set old) X) = length X - length old"
      using dX dB sub by (intro length_filter_removed) (simp_all add: old_def)
    moreover have "length X = length B" by (simp add: B_def)
    moreover have "length old = k" using True by (simp add: old_def k_def)
    ultimately show ?thesis using True assms(2) by (simp add: k_def)
  qed
qed


lemma sorted_key_last:
  assumes "sorted (map g xs)" and "x \<in> set xs"
  shows "g x \<le> g (last xs)"
proof -
  have ne: "xs \<noteq> []" using assms(2) by auto
  then have xs: "xs = butlast xs @ [last xs]" by simp
  have "sorted (map g (butlast xs @ [last xs]))" using assms(1) xs by simp
  then have "\<forall>y \<in> set (butlast xs). g y \<le> g (last xs)" by (simp add: sorted_append)
  moreover have "x \<in> set (butlast xs) \<or> x = last xs" using assms(2) xs
    by (metis Un_iff insert_iff list.set(2) set_append empty_iff list.set(1))
  ultimately show ?thesis by auto
qed

lemma rotation_keeps_newest:
  assumes "distinct (map bf_name dir)" and "1 \<le> max_files"
    and "newest \<in> set dir" and "is_backup_name (bf_name newest)"
    and "\<forall>f \<in> set dir. is_backup_name (bf_name f) \<and> f \<noteq> newest \<longrightarrow> bf_mtime f < bf_mtime newest"
  shows "newest \<in> set (cleanup_old_backups max_files dir)"
proof -
  define X where "X = filter (\<lambda>f. is_backup_name (bf_name f)) dir"
  define B where "B = sort_key bf_mtime X"
  show ?thesis
  proof (cases "int (length B) > max_files")
    case False
    then show ?thesis using assms(3) by (simp add: cleanup_old_backups_def B_def X_def Let_def)
  next
    case True
    define k where "k = length B - nat max_files"
    define old where "old = take k B"
    have sl: "slice_to_minus B max_files = old"
      using assms(2) True by (simp add: slice_to_minus_def old_def k_def Let_def nat_diff_distrib')
    have dB: "distinct B" using assms(1) by (simp add: B_def X_def distinct_map)
    have inB: "newest \<in> set B" using assms(3,4) by (simp add: B_def X_def)
    then have ne: "B \<noteq> []" by auto
    have srt: "sorted (map bf_mtime B)" by (simp add: B_def)
    have lastB: "last B = newest"
    proof (rule ccontr)
      assume neq: "last B \<noteq> newest"
      have "last B \<in> set B" using ne by simp
      then have "last B \<in> set dir" "is_backup_name (bf_name (last B))" by (simp_all add: B_def X_def)
      with neq assms(5) have "bf_mtime (last B) < bf_mtime newest" by blast
      moreover have "bf_mtime newest \<le> bf_mtime (last B)" by (rule sorted_key_last [OF srt inB])
      ultimately show False by simp
    qed
    have B: "B = butlast B @ [newest]" using ne lastB by (metis append_butlast_last_id)
    have "k \<le> length (butlast B)" using assms(2) ne by (simp add: k_def)
    then have "old = take k (butlast B)" unfolding old_def by (metis B take_append diff_is_0_eq take_0 append_Nil2)
    then have "set old \<subseteq> set (butlast B)" by (metis set_take_subset)
    moreover have "newest \<notin> set (butlast B)" using dB B by (metis distinct_append not_distinct_conv_prefix)
    ultimately have notold: "newest \<notin> set old" by auto
    have "set old \<subseteq> set dir" unfolding old_def using set_take_subset [of k B] by (auto simp: B_def X_def)
    moreover have "inj_on bf_name (set dir)" using assms(1) by (simp add: distinct_map)
    ultimately have "bf_name newest \<notin> bf_name ` set old"
      using notold assms(3) by (auto dest: inj_onD)
    moreover have "cleanup_old_backups max_files dir = filter (\<lambda>f. bf_name f \<notin> bf_name ` set old) dir"
      using True sl by (simp add: cleanup_old_backups_def B_def X_def Let_def foldl_unlink)
    ultimately show ?thesis using assms(3) by simp
  qed
qed

text \<open>
  C9 at a failing input: \<^verbatim>\<open>max_backup_files = 0\<close>. The slice
  \<^verbatim>\<open>backup_files[:-0]\<close> is \<^verbatim>\<open>backup_files[:0]\<close>, the empty list, so the
  rotation deletes nothing: after a failed upload into an empty backup directory one
  backup file remains, more than the limit allows.
\<close>

theorem rotation_with_limit_zero_deletes_nothing:
  "backup_dir (upload_to_cloud example_clock Connection_Error (example_state 0)) = [example_backup]
   \<and> cleanup_old_backups 0 [example_backup] = [example_backup]
   \<and> is_backup_name (bf_name example_backup)
   \<and> \<not> int (length [example_backup]) \<le> 0"
  by (simp add: upload_to_cloud_def save_local_backup_def example_state_def example_clock_def
      write_file_def cleanup_zero_keeps_all example_backup_def is_backup_name_example Let_def)

lemma write_file_lookup:
  "distinct (map bf_name dir) \<Longrightarrow>
     filter (\<lambda>f. bf_name f = name) (write_file name mtime content dir)
       = [\<lparr>bf_name = name, bf_mtime = mtime, bf_content = content\<rparr>]"
proof (induction dir)
  case Nil
  show ?case by (simp add: write_file_def)
next
  case (Cons f dir)
  show ?case
  proof (cases "bf_name f = name")
    case True
    then have "name \<notin> bf_name ` set dir" using Cons.prems by auto
    then have "filter (\<lambda>g. bf_name g = name) dir = []" by (auto simp: filter_empty_conv)
    moreover have "map (\<lambda>g. if bf_name g = name then \<lparr>bf_name = name, bf_mtime = mtime, bf_content = content\<rparr> else g) dir = dir"
      using \<open>name \<notin> bf_name ` set dir\<close> by (induction dir) auto
    ultimately show ?thesis using True by (simp add: write_file_def)
  next
    case False
    have "distinct (map bf_name dir)" using Cons.prems by simp
    from Cons.IH [OF this] False show ?thesis
      by (auto simp: write_file_def Let_def split: if_splits)
  qed
qed

lemma replace_keeps_others:
  "bf_name file = name \<Longrightarrow>
     filter (\<lambda>f. bf_name f \<noteq> name) (map (\<lambda>f. if bf_name f = name then file else f) dir)
       = filter (\<lambda>f. bf_name f \<noteq> name) dir"
  by (induction dir) auto

lemma write_file_others:
  "filter (\<lambda>f. bf_name f \<noteq> name) (write_file name mtime content dir)
     = filter (\<lambda>f. bf_name f \<noteq> name) dir"
proof (cases "name \<in> bf_name ` set dir")
  case True
  then show ?thesis
    using replace_keeps_others
      [of "\<lparr>bf_name = name, bf_mtime = mtime, bf_content = content\<rparr>" name dir]
    by (simp add: write_file_def)
next
  case False
  then show ?thesis by (simp add: write_file_def)
qed

text \<open>
  C2, as the code has it. When a delivery attempt on a non-empty buffer fails (connection
  error, timeout or any other exception, such as a non-2xx response), the whole attempted
  batch is converted to Point features, one per record and in order, and written to the one
  file \<^verbatim>\<open>backup_<timestamp>.geojson\<close> (replacing a file of that name), all other files
  being left as they were; then the rotation runs. The buffer \<^verbatim>\<open>session_data\<close> is
  left unchanged, so the same records form the body of the next delivery attempt.
\<close>

theorem failed_upload_backs_up_and_keeps_buffer:
  assumes "session_data st \<noteq> []"
    and "outcome \<in> {Connection_Error, Timeout_Error, Other_Exception}"
    and "distinct (map bf_name (backup_dir st))"
    and "batch = session_data st"
    and "doc = convert_to_geojson (now_iso clk) batch"
    and "name = ''backup_'' @ now_stamp clk @ ''.geojson''"
    and "written = write_file name (now_mtime clk) doc (backup_dir st)"
  shows "backup_dir (upload_to_cloud clk outcome st)
           = cleanup_old_backups (max_backup_files st) written
         \<and> filter (\<lambda>f. bf_name f = name) written
           = [\<lparr>bf_name = name, bf_mtime = now_mtime clk, bf_content = doc\<rparr>]
         \<and> filter (\<lambda>f. bf_name f \<noteq> name) written
           = filter (\<lambda>f. bf_name f \<noteq> name) (backup_dir st)
         \<and> map geometry_type (features doc) = replicate (length batch) ''Point''
         \<and> map geometry_coordinates (features doc)
           = map (\<lambda>r. [rec_longitude r, rec_latitude r]) batch
         \<and> map prop_timestamp (features doc) = map rec_timestamp batch
         \<and> map prop_detections (features doc) = map rec_detections batch
         \<and> session_data (upload_to_cloud clk outcome st) = batch
         \<and> request_body (upload_to_cloud clk outcome st) = batch"
proof -
  have up: "upload_to_cloud clk outcome st = save_local_backup clk (Some batch) st"
    using assms(1,2,4) by (auto simp: upload_to_cloud_def)
  have sv: "save_local_backup clk (Some batch) st
      = st\<lparr>backup_dir := cleanup_old_backups (max_backup_files st) written\<rparr>"
    using assms(1) unfolding assms(4-7) by (simp add: save_local_backup_def Let_def)
  have feat: "map geometry_type (features doc) = replicate (length batch) ''Point''"
    unfolding assms(5) by (simp add: convert_to_geojson_def map_replicate_const o_def)
  have coords: "map geometry_coordinates (features doc)
           = map (\<lambda>r. [rec_longitude r, rec_latitude r]) batch"
    unfolding assms(5) by (simp add: convert_to_geojson_def o_def)
  have ts: "map prop_timestamp (features doc) = map rec_timestamp batch"
    unfolding assms(5) by (simp add: convert_to_geojson_def o_def)
  have ds: "map prop_detections (features doc) = map rec_detections batch"
    unfolding assms(5) by (simp add: convert_to_geojson_def o_def)
  have f1: "filter (\<lambda>f. bf_name f = name) written
           = [\<lparr>bf_name = name, bf_mtime = now_mtime clk, bf_content = doc\<rparr>]"
    unfolding assms(7) by (rule write_file_lookup [OF assms(3)])
  have f2: "filter (\<lambda>f. bf_name f \<noteq> name) written
           = filter (\<lambda>f. bf_name f \<noteq> name) (backup_dir st)"
    unfolding assms(7) by (rule write_file_others)
  show ?thesis using up sv feat coords ts ds f1 f2 assms(4) by (simp add: request_body_def)
qed


theorem failed_upload_backs_up_and_keeps_buffer_witness:
  "session_data (example_state 5) \<noteq> []
   \<and> Connection_Error \<in> {Connection_Error, Timeout_Error, Other_Exception}
   \<and> distinct (map bf_name (backup_dir (example_state 5)))
   \<and> backup_dir (upload_to_cloud example_clock Connection_Error (example_state 5))
       = cleanup_old_backups 5 [example_backup]
   \<and> map geometry_type (features (bf_content example_backup)) = [''Point'']
   \<and> map geometry_coordinates (features (bf_content example_backup)) = [[11.5, 48.1]]
   \<and> session_data (upload_to_cloud example_clock Connection_Error (example_state 5))
       = [example_record]"
proof -
  have h1: "session_data (example_state 5) \<noteq> []" by (simp add: example_state_def)
  have h2: "Connection_Error \<in> {Connection_Error, Timeout_Error, Other_Exception}" by simp
  have h3: "distinct (map bf_name (backup_dir (example_state 5)))"
    by (simp add: example_state_def)
  have h4: "[example_record] = session_data (example_state 5)" by (simp add: example_state_def)
  have h5: "bf_content example_backup = convert_to_geojson (now_iso example_clock) [example_record]"
    by (simp add: example_backup_def example_clock_def)
  have h6: "bf_name example_backup = ''backup_'' @ now_stamp example_clock @ ''.geojson''"
    by (simp add: example_backup_def example_clock_def)
  have h7: "[example_backup] = write_file (bf_name example_backup) (now_mtime example_clock)
      (bf_content example_backup) (backup_dir (example_state 5))"
    by (simp add: write_file_def example_state_def example_backup_def example_clock_def)
  from failed_upload_backs_up_and_keeps_buffer [OF h1 h2 h3 h4 h5 h6 h7]
  show ?thesis using h1 h3
    by (simp add: example_state_def example_record_def)
qed

text \<open>
  C2 as stated fails: after a failed delivery of one buffered record the buffer still
  holds the record, and the next request body contains it again.
\<close>

theorem failed_upload_keeps_buffer_counterexample:
  "session_data (upload_to_cloud example_clock Connection_Error (example_state 5)) \<noteq> []
   \<and> request_body (upload_to_cloud example_clock Connection_Error (example_state 5))
       = [example_record]"
  by (simp add: upload_to_cloud_def save_local_backup_def example_state_def request_body_def Let_def)

section \<open>Properties of the damage grouping\<close>

text \<open>On one meridian the haversine formula gives the arc length of the difference in
  latitude.\<close>

lemma abs_sin_small: assumes "\<bar>x\<bar> < pi / 2" shows "\<bar>sin x\<bar> = sin \<bar>x\<bar>"
proof (cases "0 \<le> x")
  case True
  then have "0 \<le> sin x" using assms by (intro sin_ge_zero) auto
  then show ?thesis using True by simp
next
  case False
  then have "0 \<le> sin (- x)" using assms by (intro sin_ge_zero) auto
  then show ?thesis using False by simp
qed

lemma haversine_same_longitude:
  assumes "\<bar>lat2 - lat1\<bar> < 180"
  shows "calculate_distance lat1 lon lat2 lon = 6371000 * (\<bar>lat2 - lat1\<bar> * pi / 180)"
proof -
  define h where "h = radians (lat2 - lat1) / 2"
  have hb: "\<bar>h\<bar> < pi / 2"
  proof -
    have "\<bar>h\<bar> = \<bar>lat2 - lat1\<bar> * pi / 360" by (simp add: h_def radians_def abs_mult)
    also have "\<dots> < 180 * pi / 360" using assms by simp
    finally show ?thesis by simp
  qed
  have cpos: "0 < cos h" using hb by (intro cos_gt_zero_pi) auto
  have cpos': "0 < cos \<bar>h\<bar>" using cpos by simp
  define a where "a = (sin h)\<^sup>2 + cos (radians lat1) * cos (radians lat2) * (sin (radians (lon - lon) / 2))\<^sup>2"
  have a: "a = (sin h)\<^sup>2" by (simp add: a_def radians_def)
  have sa: "sqrt a = sin \<bar>h\<bar>" using abs_sin_small [OF hb] by (simp add: a)
  have "1 - a = (cos h)\<^sup>2" unfolding a using sin_cos_squared_add [of h] by linarith
  then have s1a: "sqrt (1 - a) = cos \<bar>h\<bar>" using cpos by simp
  have "atan2 (sqrt a) (sqrt (1 - a)) = arctan (sin \<bar>h\<bar> / cos \<bar>h\<bar>)"
    unfolding sa s1a using cpos' by (simp add: atan2_def)
  also have "\<dots> = arctan (tan \<bar>h\<bar>)" by (simp add: tan_def)
  also have "\<dots> = \<bar>h\<bar>" using hb by (intro arctan_tan) auto
  finally have at: "atan2 (sqrt a) (sqrt (1 - a)) = \<bar>h\<bar>" .
  have "calculate_distance lat1 lon lat2 lon = 6371000 * (2 * atan2 (sqrt a) (sqrt (1 - a)))"
    by (simp add: calculate_distance_def Let_def a_def h_def)
  also have "\<dots> = 6371000 * (2 * \<bar>h\<bar>)" by (simp only: at)
  also have "2 * \<bar>h\<bar> = \<bar>lat2 - lat1\<bar> * pi / 180" by (simp add: h_def radians_def abs_mult)
  finally show ?thesis .
qed

lemma gps_ok_cases:
  assumes "gps_ok d"
  obtains g lat lon where "gps d = Some g" "latitude g = Some lat" "longitude g = Some lon"
    "lat \<noteq> 0" "lon \<noteq> 0" "gps_or_empty d = g" "lat_of d = lat" "lon_of d = lon" "has_gps d"
proof -
  from assms obtain lat lon where l: "latitude (gps_or_empty d) = Some lat" "lat \<noteq> 0"
    "longitude (gps_or_empty d) = Some lon" "lon \<noteq> 0"
    by (auto simp: gps_ok_def truthy_def split: option.splits)
  then obtain g where g: "gps d = Some g" by (cases "gps d") (auto simp: gps_or_empty_def)
  then have e: "gps_or_empty d = g" by (simp add: gps_or_empty_def)
  show ?thesis
    using that [of g lat lon] g l e by (simp add: lat_of_def lon_of_def has_gps_def)
qed

lemma sum_gps_ok:
  assumes "\<forall>m \<in> set ds. gps_ok m"
  shows "sum_gps latitude ds = Inr (sum_list (map lat_of ds))"
    and "sum_gps longitude ds = Inr (sum_list (map lon_of ds))"
    and "filter has_gps ds = ds"
  using assms
proof (induction ds)
  case Nil
  { case 1 show ?case by simp }
  { case 2 show ?case by simp }
  { case 3 show ?case by simp }
next
  case (Cons d ds)
  { case 1
    then have ok: "gps_ok d" and rest: "\<forall>m \<in> set ds. gps_ok m" by simp_all
    from ok show ?case using Cons.IH(1) [OF rest] by (elim gps_ok_cases) simp }
  { case 2
    then have ok: "gps_ok d" and rest: "\<forall>m \<in> set ds. gps_ok m" by simp_all
    from ok show ?case using Cons.IH(2) [OF rest] by (elim gps_ok_cases) simp }
  { case 3
    then have ok: "gps_ok d" and rest: "\<forall>m \<in> set ds. gps_ok m" by simp_all
    from ok show ?case using Cons.IH(3) [OF rest] by (elim gps_ok_cases) simp }
qed

lemma update_group_center_ok:
  assumes "\<forall>m \<in> set (detections grp). gps_ok m" and "gps_ok d"
  shows "update_group_center (grp\<lparr>detections := detections grp @ [d]\<rparr>) = Inr (with_member grp d)"
proof -
  have all: "\<forall>m \<in> set (detections grp @ [d]). gps_ok m" using assms by simp
  show ?thesis
    using sum_gps_ok [OF all]
    by (simp add: update_group_center_def with_member_def Let_def)
qed

lemma find_group_none:
  "\<forall>g \<in> set groups. \<not> fits maxd lat lon dtype g \<Longrightarrow>
     find_group maxd lat lon dtype d groups = Inr None"
  by (induction groups) simp_all

lemma find_group_first:
  assumes "i < length groups" and "fits maxd lat lon dtype (groups ! i)"
    and "\<forall>j < i. \<not> fits maxd lat lon dtype (groups ! j)"
    and "\<forall>m \<in> set (detections (groups ! i)). gps_ok m" and "gps_ok d"
  shows "find_group maxd lat lon dtype d groups
           = Inr (Some (groups[i := with_member (groups ! i) d]))"
  using assms
proof (induction groups arbitrary: i)
  case Nil
  then show ?case by simp
next
  case (Cons g groups)
  show ?case
  proof (cases i)
    case 0
    then show ?thesis using Cons.prems by (simp add: update_group_center_ok)
  next
    case (Suc k)
    have nf: "\<not> fits maxd lat lon dtype g" using Cons.prems(3) Suc by auto
    have "find_group maxd lat lon dtype d groups
           = Inr (Some (groups[k := with_member (groups ! k) d]))"
    proof (rule Cons.IH)
      show "k < length groups" using Cons.prems(1) Suc by simp
      show "fits maxd lat lon dtype (groups ! k)" using Cons.prems(2) Suc by simp
      show "\<forall>j<k. \<not> fits maxd lat lon dtype (groups ! j)"
        using Cons.prems(3) Suc by auto
      show "\<forall>m\<in>set (detections (groups ! k)). gps_ok m" using Cons.prems(4) Suc by simp
      show "gps_ok d" by (rule Cons.prems(5))
    qed
    then show ?thesis using nf Suc by simp
  qed
qed

lemma add_detection_skip: "\<not> gps_ok d \<Longrightarrow> add_detection maxd groups d = Inr groups"
  by (auto simp: add_detection_def gps_ok_def Let_def)

lemma add_detection_find:
  assumes "gps_ok d"
  shows "add_detection maxd groups d =
     (case find_group maxd (lat_of d) (lon_of d) (class_of d) d groups of
        Inl e \<Rightarrow> Inl e
      | Inr (Some groups') \<Rightarrow> Inr groups'
      | Inr None \<Rightarrow> Inr (groups @ [new_group groups d]))"
  using assms
  by (elim gps_ok_cases)
     (simp add: add_detection_def Let_def truthy_def class_of_def new_group_def
        split: sum.splits option.splits)

text \<open>
  C1, as the code has it. For an incoming detection with usable coordinates: if no
  existing group of its damage type has its centre within \<^verbatim>\<open>max_distance\<close>
  (1.0 m by default), a new group containing only this detection is appended; otherwise
  the detection joins the first fitting group in creation order, whether or not a later
  group's centre is nearer, that group's centre becomes the mean position of its members,
  and every other group is unchanged.
\<close>

theorem first_fitting_group_takes_detection:
  assumes "gps_ok d"
    and "\<forall>g \<in> set groups. \<forall>m \<in> set (detections g). gps_ok m"
  shows "((\<forall>g \<in> set groups. \<not> fits maxd (lat_of d) (lon_of d) (class_of d) g) \<longrightarrow>
            add_detection maxd groups d = Inr (groups @ [new_group groups d]))
       \<and> (i < length groups \<and> fits maxd (lat_of d) (lon_of d) (class_of d) (groups ! i)
            \<and> (\<forall>j < i. \<not> fits maxd (lat_of d) (lon_of d) (class_of d) (groups ! j)) \<longrightarrow>
            add_detection maxd groups d = Inr (groups[i := with_member (groups ! i) d]))"
proof (intro conjI impI)
  assume "\<forall>g \<in> set groups. \<not> fits maxd (lat_of d) (lon_of d) (class_of d) g"
  then show "add_detection maxd groups d = Inr (groups @ [new_group groups d])"
    using assms(1) by (simp add: add_detection_find find_group_none)
next
  assume h: "i < length groups \<and> fits maxd (lat_of d) (lon_of d) (class_of d) (groups ! i)
            \<and> (\<forall>j < i. \<not> fits maxd (lat_of d) (lon_of d) (class_of d) (groups ! j))"
  then have "\<forall>m \<in> set (detections (groups ! i)). gps_ok m"
    using assms(2) nth_mem [of i groups] by blast
  with h assms(1) have "find_group maxd (lat_of d) (lon_of d) (class_of d) d groups
           = Inr (Some (groups[i := with_member (groups ! i) d]))"
    by (intro find_group_first) simp_all
  then show "add_detection maxd groups d = Inr (groups[i := with_member (groups ! i) d])"
    using assms(1) by (simp add: add_detection_find)
qed

lemma pi_ge_three: "3 \<le> pi"
proof -
  have "sin (pi / 6) \<le> pi / 6" by (rule sin_x_le_x) simp
  then show ?thesis by (simp add: sin_30)
qed

lemma example_distances:
  "calculate_distance 48.00001 11 48 11 > 1"
  "calculate_distance 48.000006 11 48 11 \<le> 1"
  "calculate_distance 48.000006 11 48.00001 11 \<le> 1"
  "calculate_distance 48.000006 11 48.00001 11 < calculate_distance 48.000006 11 48 11"
  using pi_ge_three pi_less_4 by (simp_all add: haversine_same_longitude)

lemma example_sums:
  "sum_gps latitude [event_1, event_3] = Inr 96.000006" "sum_gps longitude [event_1, event_3] = Inr 22"
  "filter has_gps [event_1, event_3] = [event_1, event_3]"
  by (simp_all add: event_1_def event_3_def example_detection_def has_gps_def gps_or_empty_def)

lemma example_steps:
  "add_detection 1 [] event_1 = Inr [group_A]"
  "add_detection 1 [group_A] event_2 = Inr [group_A, group_B]"
  "add_detection 1 [group_A, group_B] event_3 = Inr [group_A3, group_B]"
proof -
  show "add_detection 1 [] event_1 = Inr [group_A]"
    by (simp add: add_detection_def event_1_def example_detection_def gps_or_empty_def truthy_def
        group_A_def)
  show "add_detection 1 [group_A] event_2 = Inr [group_A, group_B]"
    using example_distances(1)
    by (simp add: add_detection_def event_2_def example_detection_def gps_or_empty_def truthy_def
        group_A_def group_B_def fits_def)
  have "update_group_center (group_A\<lparr>detections := detections group_A @ [event_3]\<rparr>) = Inr group_A3"
    using example_sums by (simp add: update_group_center_def group_A_def group_A3_def)
  moreover have "fits 1 48.000006 11 ''pothole'' group_A"
    using example_distances(2) by (simp add: fits_def group_A_def)
  ultimately show "add_detection 1 [group_A, group_B] event_3 = Inr [group_A3, group_B]"
    by (simp add: add_detection_def event_3_def example_detection_def gps_or_empty_def truthy_def)
qed

theorem first_fitting_group_takes_detection_witness:
  "gps_ok event_1 \<and> gps_ok event_2 \<and> gps_ok event_3
   \<and> detections group_A = [event_1] \<and> detections group_B = [event_2]
   \<and> \<not> fits 1 (lat_of event_2) (lon_of event_2) (class_of event_2) group_A
   \<and> add_detection 1 [group_A] event_2 = Inr ([group_A] @ [new_group [group_A] event_2])
   \<and> fits 1 (lat_of event_3) (lon_of event_3) (class_of event_3) ([group_A, group_B] ! 0)
   \<and> add_detection 1 [group_A, group_B] event_3
       = Inr ([group_A, group_B][0 := with_member ([group_A, group_B] ! 0) event_3])"
proof -
  have ok: "gps_ok event_1" "gps_ok event_2" "gps_ok event_3"
    by (simp_all add: gps_ok_def event_1_def event_2_def event_3_def example_detection_def gps_or_empty_def truthy_def)
  have m1: "\<forall>g \<in> set [group_A]. \<forall>m \<in> set (detections g). gps_ok m"
    using ok by (simp add: group_A_def)
  have m2: "\<forall>g \<in> set [group_A, group_B]. \<forall>m \<in> set (detections g). gps_ok m"
    using ok by (simp add: group_A_def group_B_def)
  have l2: "lat_of event_2 = 48.00001" "lon_of event_2 = 11" "class_of event_2 = ''pothole''"
    by (simp_all add: lat_of_def lon_of_def class_of_def event_2_def example_detection_def gps_or_empty_def)
  have l3: "lat_of event_3 = 48.000006" "lon_of event_3 = 11" "class_of event_3 = ''pothole''"
    by (simp_all add: lat_of_def lon_of_def class_of_def event_3_def example_detection_def gps_or_empty_def)
  have n2: "\<forall>g \<in> set [group_A]. \<not> fits 1 (lat_of event_2) (lon_of event_2) (class_of event_2) g"
    using example_distances(1) by (simp add: l2 fits_def group_A_def)
  have f3: "fits 1 (lat_of event_3) (lon_of event_3) (class_of event_3) ([group_A, group_B] ! 0)"
    using example_distances(2) by (simp add: l3 fits_def group_A_def)
  have d: "detections group_A = [event_1]" "detections group_B = [event_2]"
    by (simp_all add: group_A_def group_B_def)
  show ?thesis
    using ok d n2 f3
      first_fitting_group_takes_detection [OF ok(2) m1, of 1 0]
      first_fitting_group_takes_detection [OF ok(3) m2, of 1 0]
    by simp
qed

lemma find_group_result:
  assumes "\<forall>g \<in> set groups. \<forall>m \<in> set (detections g). gps_ok m" and "gps_ok d"
  shows "find_group maxd lat lon dtype d groups = Inr None
         \<or> (\<exists>i < length groups. find_group maxd lat lon dtype d groups
                = Inr (Some (groups[i := with_member (groups ! i) d])))"
  using assms(1)
proof (induction groups)
  case Nil
  show ?case by simp
next
  case (Cons g groups)
  show ?case
  proof (cases "fits maxd lat lon dtype g")
    case True
    have "find_group maxd lat lon dtype d (g # groups)
        = Inr (Some ((g # groups)[0 := with_member ((g # groups) ! 0) d]))"
      using True Cons.prems assms(2) by (simp add: update_group_center_ok)
    then show ?thesis by blast
  next
    case False
    have "\<forall>g \<in> set groups. \<forall>m \<in> set (detections g). gps_ok m" using Cons.prems by simp
    from Cons.IH [OF this] show ?thesis
    proof
      assume "find_group maxd lat lon dtype d groups = Inr None"
      then show ?thesis using False by simp
    next
      assume "\<exists>i < length groups. find_group maxd lat lon dtype d groups
                = Inr (Some (groups[i := with_member (groups ! i) d]))"
      then obtain i where i: "i < length groups"
        "find_group maxd lat lon dtype d groups = Inr (Some (groups[i := with_member (groups ! i) d]))"
        by blast
      then have "find_group maxd lat lon dtype d (g # groups)
          = Inr (Some ((g # groups)[Suc i := with_member ((g # groups) ! Suc i) d]))"
        using False by simp
      moreover have "Suc i < length (g # groups)" using i(1) by simp
      ultimately show ?thesis by blast
    qed
  qed
qed

lemma add_detection_result:
  assumes "\<forall>g \<in> set groups. \<forall>m \<in> set (detections g). gps_ok m"
  shows "add_detection maxd groups d = Inr groups
         \<or> (gps_ok d \<and> add_detection maxd groups d = Inr (groups @ [new_group groups d]))
         \<or> (gps_ok d \<and> (\<exists>i < length groups. add_detection maxd groups d
                = Inr (groups[i := with_member (groups ! i) d])))"
proof (cases "gps_ok d")
  case False
  then show ?thesis by (simp add: add_detection_skip)
next
  case True
  from find_group_result [OF assms True, of maxd "lat_of d" "lon_of d" "class_of d"]
  show ?thesis
  proof
    assume "find_group maxd (lat_of d) (lon_of d) (class_of d) d groups = Inr None"
    then show ?thesis using True by (simp add: add_detection_find)
  next
    assume "\<exists>i < length groups. find_group maxd (lat_of d) (lon_of d) (class_of d) d groups
                = Inr (Some (groups[i := with_member (groups ! i) d]))"
    then show ?thesis using True by (auto simp: add_detection_find)
  qed
qed


lemma time_ordered_members:
  "time_ordered groups ds \<Longrightarrow> \<forall>g \<in> set groups. \<forall>m \<in> set (detections g). gps_ok m"
  by (simp add: time_ordered_def)

lemma time_ordered_tail: "time_ordered groups (d # ds) \<Longrightarrow> time_ordered groups ds"
  by (simp add: time_ordered_def)

lemma time_ordered_new:
  assumes "time_ordered groups (d # ds)" and "gps_ok d"
  shows "time_ordered (groups @ [new_group groups d]) ds"
  using assms by (auto simp: time_ordered_def new_group_def)

lemma time_ordered_member:
  assumes "time_ordered groups (d # ds)" and "gps_ok d" and "i < length groups"
  shows "time_ordered (groups[i := with_member (groups ! i) d]) ds"
proof -
  have gi: "groups ! i \<in> set groups" using assms(3) by simp
  have srt: "sorted (map timestamp_key (detections (groups ! i) @ [d]))"
    using assms(1) gi by (auto simp: time_ordered_def sorted_append)
  have le: "\<forall>e \<in> set ds. timestamp_key d \<le> timestamp_key e"
    using assms(1) by (simp add: time_ordered_def)
  have new: "detections (with_member (groups ! i) d) = detections (groups ! i) @ [d]"
    by (simp add: with_member_def)
  have old: "\<forall>m \<in> set (detections (groups ! i)).
      gps_ok m \<and> (\<forall>e \<in> set ds. timestamp_key m \<le> timestamp_key e)"
    using assms(1) gi by (simp add: time_ordered_def)
  have tail: "time_ordered groups ds" using assms(1) by (rule time_ordered_tail)
  have srt_ds: "sorted (map timestamp_key ds)" using tail by (simp add: time_ordered_def)
  have "\<forall>g \<in> set (groups[i := with_member (groups ! i) d]).
          detections g \<noteq> [] \<and> sorted (map timestamp_key (detections g))
          \<and> (\<forall>m \<in> set (detections g).
                gps_ok m \<and> (\<forall>e \<in> set ds. timestamp_key m \<le> timestamp_key e))"
  proof
    fix g assume "g \<in> set (groups[i := with_member (groups ! i) d])"
    then have g: "g = with_member (groups ! i) d \<or> g \<in> set groups"
      using set_update_subset_insert [of groups i "with_member (groups ! i) d"] by auto
    then show "detections g \<noteq> [] \<and> sorted (map timestamp_key (detections g))
          \<and> (\<forall>m \<in> set (detections g).
                gps_ok m \<and> (\<forall>e \<in> set ds. timestamp_key m \<le> timestamp_key e))"
    proof
      assume "g = with_member (groups ! i) d"
      then show ?thesis using new srt old le assms(2) by auto
    next
      assume "g \<in> set groups"
      then show ?thesis using tail by (simp add: time_ordered_def)
    qed
  qed
  then show ?thesis using srt_ds by (simp add: time_ordered_def)
qed

lemma add_detection_time_ordered:
  assumes "time_ordered groups (d # ds)"
  shows "\<exists>groups'. add_detection maxd groups d = Inr groups' \<and> time_ordered groups' ds"
  using add_detection_result [OF time_ordered_members [OF assms], of maxd d]
  using time_ordered_tail [OF assms] time_ordered_new [OF assms] time_ordered_member [OF assms]
  by auto

lemma group_loop_time_ordered:
  "time_ordered groups ds \<Longrightarrow>
     \<exists>groups'. group_loop maxd groups ds = Inr groups' \<and> time_ordered groups' []"
proof (induction ds arbitrary: groups)
  case Nil
  then show ?case by simp
next
  case (Cons d ds)
  from add_detection_time_ordered [OF Cons.prems, of maxd]
  obtain g1 where g1: "add_detection maxd groups d = Inr g1" "time_ordered g1 ds" by blast
  from Cons.IH [OF g1(2)] show ?case using g1(1) by simp
qed

lemma add_statistics_sorted:
  assumes "detections grp \<noteq> []" and "sorted (map timestamp_key (detections grp))"
  shows "\<exists>st. add_statistics grp = Inr st \<and> group.truncate st = grp"
proof -
  have id: "sort_key timestamp_key (detections grp) = detections grp"
    using assms(2) by (rule sort_key_id_if_sorted)
  obtain c cs where "map (\<lambda>d. get_or (det_confidence d) 0) (detections grp) = c # cs"
    using assms(1) by (cases "detections grp") auto
  then show ?thesis
    by (simp add: add_statistics_def id Let_def group.defs)
qed

lemma statistics_loop_sorted:
  assumes "\<forall>g \<in> set groups. detections g \<noteq> [] \<and> sorted (map timestamp_key (detections g))"
  shows "\<exists>stats. statistics_loop groups = Inr stats \<and> map group.truncate stats = groups"
  using assms
proof (induction groups)
  case Nil
  show ?case by simp
next
  case (Cons g groups)
  from Cons.prems obtain st where st: "add_statistics g = Inr st" "group.truncate st = g"
    using add_statistics_sorted [of g] by auto
  from Cons.prems Cons.IH obtain stats where
    stats: "statistics_loop groups = Inr stats" "map group.truncate stats = groups" by auto
  show ?case using st stats by simp
qed

lemma group_detections_clusters:
  "\<exists>groups stats. group_loop maxd [] (sort_key timestamp_key dets) = Inr groups
      \<and> time_ordered groups []
      \<and> group_detections maxd dets = Inr stats
      \<and> map group.truncate stats = groups"
proof -
  have "time_ordered [] (sort_key timestamp_key dets)" by (simp add: time_ordered_def)
  from group_loop_time_ordered [OF this, of maxd]
  obtain groups where g: "group_loop maxd [] (sort_key timestamp_key dets) = Inr groups"
    "time_ordered groups []" by blast
  then have "\<forall>g \<in> set groups. detections g \<noteq> [] \<and> sorted (map timestamp_key (detections g))"
    by (simp add: time_ordered_def)
  from statistics_loop_sorted [OF this]
  obtain stats where st: "statistics_loop groups = Inr stats" "map group.truncate stats = groups"
    by blast
  have "group_detections maxd dets = Inr stats"
  proof (cases "dets = []")
    case True
    then show ?thesis using g(1) st by (auto simp: group_detections_def)
  next
    case False
    then show ?thesis using g(1) st(1) by (simp add: group_detections_def Let_def)
  qed
  then show ?thesis using g st(2) by blast
qed

lemma example_sorted: "sort_key timestamp_key [event_3, event_1, event_2] = [event_1, event_2, event_3]"
  by (simp add: timestamp_key_def event_1_def event_2_def event_3_def example_detection_def less_eq_char_def)

text \<open>
  C1 as stated fails: the third detection is 0.67 m from the centre of the first group and
  0.44 m from the centre of the second, both within the default radius, and it joins the
  first group.
\<close>

theorem nearest_cluster_counterexample:
  "map_sum id (map group.truncate) (group_detections default_max_distance [event_3, event_1, event_2])
     = Inr [group_A3, group_B]
   \<and> group_loop default_max_distance [] [event_1, event_2, event_3] = Inr [group_A3, group_B]
   \<and> event_3 \<in> set (detections group_A3) \<and> event_3 \<notin> set (detections group_B)
   \<and> add_detection default_max_distance [group_A, group_B] event_3 = Inr [group_A3, group_B]
   \<and> fits default_max_distance (lat_of event_3) (lon_of event_3) (class_of event_3) group_B
   \<and> calculate_distance (lat_of event_3) (lon_of event_3) (center_lat group_B) (center_lon group_B)
       < calculate_distance (lat_of event_3) (lon_of event_3) (center_lat group_A) (center_lon group_A)"
proof -
  have l: "lat_of event_3 = 48.000006" "lon_of event_3 = 11" "class_of event_3 = ''pothole''"
    by (simp_all add: lat_of_def lon_of_def class_of_def event_3_def example_detection_def gps_or_empty_def)
  have loop: "group_loop default_max_distance [] [event_1, event_2, event_3] = Inr [group_A3, group_B]"
    by (simp add: default_max_distance_def example_steps)
  have step: "add_detection default_max_distance [group_A, group_B] event_3 = Inr [group_A3, group_B]"
    by (simp add: default_max_distance_def example_steps)
  have mem: "event_3 \<in> set (detections group_A3)" "event_3 \<notin> set (detections group_B)"
    by (simp_all add: group_A3_def group_B_def event_3_def event_2_def example_detection_def)
  have fit: "fits default_max_distance (lat_of event_3) (lon_of event_3) (class_of event_3) group_B"
    using example_distances(3) by (simp add: l fits_def group_B_def default_max_distance_def)
  have nearer: "calculate_distance (lat_of event_3) (lon_of event_3) (center_lat group_B) (center_lon group_B)
       < calculate_distance (lat_of event_3) (lon_of event_3) (center_lat group_A) (center_lon group_A)"
    using example_distances(4) by (simp add: l group_A_def group_B_def)
  from group_detections_clusters [of default_max_distance "[event_3, event_1, event_2]"]
  have batch: "map_sum id (map group.truncate)
      (group_detections default_max_distance [event_3, event_1, event_2]) = Inr [group_A3, group_B]"
    unfolding example_sorted loop by auto
  show ?thesis using batch loop step mem fit nearer by simp
qed

lemma group_loop_filter:
  "group_loop maxd groups (filter gps_ok ds) = group_loop maxd groups ds"
  by (induction ds arbitrary: groups) (simp_all add: add_detection_skip split: sum.splits)


lemma group_detections_filter:
  "group_detections maxd (filter gps_ok dets) = group_detections maxd dets"
proof -
  have loop: "group_loop maxd [] (sort_key timestamp_key (filter gps_ok dets))
      = group_loop maxd [] (sort_key timestamp_key dets)"
    using group_loop_filter [of maxd "[]" "sort_key timestamp_key dets"]
    by (simp add: filter_sort)
  show ?thesis
  proof (cases "filter gps_ok dets = []")
    case True
    then have "group_loop maxd [] (sort_key timestamp_key dets) = Inr []"
      using loop by simp
    then show ?thesis using True by (simp add: group_detections_def Let_def)
  next
    case False
    then have "dets \<noteq> []" by auto
    then show ?thesis using False loop by (simp add: group_detections_def Let_def)
  qed
qed

lemma gps_ok_iff:
  "(\<not> gps_ok d) =
     (latitude (gps_or_empty d) = None \<or> latitude (gps_or_empty d) = Some 0
      \<or> longitude (gps_or_empty d) = None \<or> longitude (gps_or_empty d) = Some 0)"
  by (auto simp: gps_ok_def truthy_def split: option.splits)

lemma returned_members_ok:
  assumes "group_detections maxd dets = Inr stats"
  shows "\<forall>g \<in> set stats. \<forall>m \<in> set (detections g). gps_ok m"
proof -
  from group_detections_clusters [of maxd dets]
  obtain groups stats' where g: "time_ordered groups []"
    "group_detections maxd dets = Inr stats'" "map group.truncate stats' = groups" by blast
  have eq: "stats' = stats" using g(2) assms by simp
  show ?thesis
  proof
    fix st assume "st \<in> set stats"
    then have "group.truncate st \<in> set groups" using g(3) eq by auto
    then have "\<forall>m \<in> set (detections (group.truncate st)). gps_ok m"
      using g(1) by (simp add: time_ordered_def)
    then show "\<forall>m \<in> set (detections st). gps_ok m" by (simp add: group.defs)
  qed
qed

text \<open>
  C10. A detection whose latitude or longitude is absent or equal to 0 (the test
  \<^verbatim>\<open>not gps.get('latitude') or not gps.get('longitude')\<close>) is skipped before
  anything else is done with it: its turn in the loop raises nothing and leaves the groups
  as they were, the result of batch grouping is the result on the input with those
  detections removed, and no returned group contains such a detection. Latitude 0 and
  longitude 0 are inside the valid coordinate ranges (the equator and the prime meridian).
  The statement is about the detection that is skipped; it does not say that grouping the
  other detections cannot fail.
\<close>

theorem invalid_gps_excluded:
  "(\<not> gps_ok d \<longrightarrow> add_detection maxd groups d = Inr groups)
   \<and> group_detections maxd dets = group_detections maxd (filter gps_ok dets)
   \<and> (group_detections maxd dets = Inr stats \<longrightarrow>
        (\<forall>g \<in> set stats. \<forall>x \<in> set dets. \<not> gps_ok x \<longrightarrow> x \<notin> set (detections g)))"
proof (intro conjI impI)
  assume "\<not> gps_ok d"
  then show "add_detection maxd groups d = Inr groups" by (rule add_detection_skip)
next
  show "group_detections maxd dets = group_detections maxd (filter gps_ok dets)"
    by (simp add: group_detections_filter)
next
  assume "group_detections maxd dets = Inr stats"
  from returned_members_ok [OF this]
  show "\<forall>g \<in> set stats. \<forall>x \<in> set dets. \<not> gps_ok x \<longrightarrow> x \<notin> set (detections g)"
    by blast
qed

lemma example_batch: "group_detections 1 [event_1] = Inr [stats_A]"
proof -
  have l: "group_loop 1 [] [event_1] = Inr [group_A]" by (simp add: example_steps)
  have s: "add_statistics group_A = Inr stats_A"
    by (simp add: add_statistics_def Let_def stats_A_def group_A_def group.defs
        timestamp_key_def event_1_def example_detection_def)
  have "sort_key timestamp_key [event_1] = [event_1]" by simp
  then have "group_detections 1 [event_1] = statistics_loop [group_A]"
    unfolding group_detections_def Let_def using l by simp
  then show ?thesis by (simp add: s)
qed

theorem invalid_gps_excluded_witness:
  "\<not> gps_ok event_0 \<and> latitude (gps_or_empty event_0) = Some 0
   \<and> add_detection 1 [group_A] event_0 = Inr [group_A]
   \<and> group_detections 1 [event_0, event_1] = group_detections 1 [event_1]
   \<and> group_detections 1 [event_0, event_1] = Inr [stats_A]
   \<and> event_0 \<notin> set (detections stats_A)"
proof -
  have ok: "\<not> gps_ok event_0" "gps_ok event_1" "latitude (gps_or_empty event_0) = Some 0"
    by (simp_all add: gps_ok_def event_0_def event_1_def example_detection_def gps_or_empty_def truthy_def)
  then have f: "filter gps_ok [event_0, event_1] = [event_1]" by simp
  have b: "group_detections 1 [event_0, event_1] = Inr [stats_A]"
    using group_detections_filter [of 1 "[event_0, event_1]"] unfolding f
    by (simp add: example_batch)
  show ?thesis
    using ok b invalid_gps_excluded [of event_0 1 "[group_A]" "[event_0, event_1]" "[stats_A]"]
    unfolding f by (simp add: example_batch)
qed



end
